theory Spec2Isabelle
  imports Complex_Main
begin

section \<open>Catalog API: a shallow embedding of the request-serving engine\<close>

text \<open>
  The development follows \<^verbatim>\<open>src/catalog_api\<close>: the token bucket and the two
  Provider limiters of \<^verbatim>\<open>app.py\<close>, the locale resolver of \<^verbatim>\<open>lang.py\<close>,
  the translation lookup, the Provider client, the similar-titles lookup and the
  backfill scheduler of \<^verbatim>\<open>app.py\<close>.

  Conventions. In the token bucket, the Python floats (the readings of
  \<^verbatim>\<open>time.time()\<close>, the rate and the token counts) are finite and are modelled as
  \<^typ>\<open>real\<close>: the properties proved of it are about the comparisons and the control
  flow, not about rounding. The rates configured from the environment are modelled with
  the infinities, NaN and a rounding subtraction (section on Python floats). A Python
  \<^verbatim>\<open>str\<close> is the list of its code points. The value \<^verbatim>\<open>None\<close> of an optional
  is \<^const>\<open>None\<close>.
\<close>

subsection \<open>The token bucket (\<^verbatim>\<open>app.py\<close>, class \<^verbatim>\<open>_TokenBucket\<close>)\<close>

record token_bucket =
  rate :: real
  capacity :: real
  tokens :: real
  t :: real

text \<open>
  \<^verbatim>\<open>__init__(rate, capacity=None)\<close>: the capacity defaults to the rate, the bucket
  starts full, and \<^verbatim>\<open>t\<close> is the clock reading at construction.
\<close>

definition TokenBucket :: "real \<Rightarrow> real option \<Rightarrow> real \<Rightarrow> token_bucket" where
  "TokenBucket r cap now =
     (let c = (case cap of None \<Rightarrow> r | Some c \<Rightarrow> c)
      in \<lparr>rate = r, capacity = c, tokens = c, t = now\<rparr>)"

text \<open>
  One pass through the body of \<^verbatim>\<open>while True\<close> in \<^verbatim>\<open>acquire\<close>, which runs
  under the bucket's lock and is therefore atomic: refill from the elapsed time, then
  either deduct and return (\<^const>\<open>None\<close>), or report how long to sleep.
\<close>

definition refill :: "token_bucket \<Rightarrow> real \<Rightarrow> token_bucket" where
  "refill b now =
     (let dt = now - t b
      in if dt > 0
         then b\<lparr>tokens := min (capacity b) (tokens b + dt * rate b), t := now\<rparr>
         else b)"

definition acquire_step :: "token_bucket \<Rightarrow> real \<Rightarrow> real \<Rightarrow> token_bucket \<times> real option" where
  "acquire_step b n now =
     (let b1 = refill b now
      in if tokens b1 \<ge> n
         then (b1\<lparr>tokens := tokens b1 - n\<rparr>, None)
         else (b1, Some ((n - tokens b1) / rate b1)))"

text \<open>
  The loop of \<^verbatim>\<open>acquire\<close>. The clock is an input: the list holds the successive
  readings of \<^verbatim>\<open>time.time()\<close>, one per iteration (the sleep between two iterations
  only moves the clock). The result is the bucket reached and whether the tokens were
  obtained; with the readings used up before that, the flag is \<^const>\<open>False\<close> and the
  bucket is the one the loop has reached so far.
\<close>

fun acquire_loop :: "token_bucket \<Rightarrow> real \<Rightarrow> real list \<Rightarrow> token_bucket \<times> bool" where
  "acquire_loop b n [] = (b, False)"
| "acquire_loop b n (now # clock) =
     (case acquire_step b n now of
        (b', None) \<Rightarrow> (b', True)
      | (b', Some need) \<Rightarrow> acquire_loop b' n clock)"

definition acquire :: "token_bucket \<Rightarrow> real \<Rightarrow> real list \<Rightarrow> token_bucket \<times> bool" where
  "acquire b n clock = (if rate b \<le> 0 then (b, True) else acquire_loop b n clock)"

text \<open>A sequence of calls \<^verbatim>\<open>acquire(n)\<close>, each with its own clock readings.\<close>

fun acquire_seq :: "token_bucket \<Rightarrow> (real \<times> real list) list \<Rightarrow> token_bucket list" where
  "acquire_seq b [] = []"
| "acquire_seq b ((n, clock) # calls) =
     (let b' = fst (acquire b n clock) in b' # acquire_seq b' calls)"

definition bucket_inv :: "token_bucket \<Rightarrow> bool" where
  "bucket_inv b \<longleftrightarrow> 0 \<le> tokens b \<and> tokens b \<le> capacity b"

subsection \<open>Python floats\<close>

text \<open>
  The rates read from the environment are any value \<^verbatim>\<open>float()\<close> can return: a
  finite number, an infinity or NaN. Comparison is exact, and false whenever an
  operand is NaN; \<^verbatim>\<open>min(a, b)\<close> is \<^verbatim>\<open>b\<close> when \<^verbatim>\<open>b < a\<close> and \<^verbatim>\<open>a\<close>
  otherwise, \<^verbatim>\<open>max(a, b)\<close> is \<^verbatim>\<open>b\<close> when \<^verbatim>\<open>b > a\<close> and \<^verbatim>\<open>a\<close> otherwise.
  Subtraction rounds its result to the nearest float (\<^verbatim>\<open>1e18 - 1\<close> is \<^verbatim>\<open>1e18\<close>):
  the limiter split below takes it as the parameter \<open>fsub\<close>. \<open>exact_sub\<close> is
  the subtraction that does not round; it is the subtraction of the code wherever the
  difference of the two floats is a float again, as in \<^verbatim>\<open>47 - 1\<close>, \<^verbatim>\<open>47 - 7\<close>
  and \<^verbatim>\<open>1 - 1\<close>.
\<close>

datatype pyfloat = Fin real | PInf | NInf | NaN

fun fgt :: "pyfloat \<Rightarrow> pyfloat \<Rightarrow> bool" where
  "fgt NaN _ = False"
| "fgt _ NaN = False"
| "fgt NInf _ = False"
| "fgt _ PInf = False"
| "fgt PInf _ = True"
| "fgt _ NInf = True"
| "fgt (Fin x) (Fin y) = (x > y)"

definition min_py :: "pyfloat \<Rightarrow> pyfloat \<Rightarrow> pyfloat" where
  "min_py a b = (if fgt a b then b else a)"

definition max_py :: "pyfloat \<Rightarrow> pyfloat \<Rightarrow> pyfloat" where
  "max_py a b = (if fgt b a then b else a)"

fun exact_sub :: "pyfloat \<Rightarrow> pyfloat \<Rightarrow> pyfloat" where
  "exact_sub NaN _ = NaN"
| "exact_sub _ NaN = NaN"
| "exact_sub PInf PInf = NaN"
| "exact_sub NInf NInf = NaN"
| "exact_sub PInf _ = PInf"
| "exact_sub NInf _ = NInf"
| "exact_sub _ PInf = NInf"
| "exact_sub _ NInf = PInf"
| "exact_sub (Fin x) (Fin y) = Fin (x - y)"

subsection \<open>The two Provider limiters (\<^verbatim>\<open>App.__init__\<close>, lines 70 to 76)\<close>

text \<open>
  The constructor of \<^verbatim>\<open>_TokenBucket\<close> once more, on rates that may be infinite or
  NaN: the capacity defaults to the rate and the bucket starts full.
\<close>

record float_bucket =
  frate :: pyfloat
  fcapacity :: pyfloat
  ftokens :: pyfloat
  ft :: real

definition TokenBucket_float :: "pyfloat \<Rightarrow> pyfloat option \<Rightarrow> real \<Rightarrow> float_bucket" where
  "TokenBucket_float r cap now =
     (let c = (case cap of None \<Rightarrow> r | Some c \<Rightarrow> c)
      in \<lparr>frate = r, fcapacity = c, ftokens = c, ft = now\<rparr>)"

text \<open>
  \<^verbatim>\<open>TMDB_RPS\<close> and \<^verbatim>\<open>TMDB_RPS_FOREGROUND\<close> are read from the environment; an
  unset or empty variable is \<^const>\<open>None\<close> and takes the default (47 and 7).
  \<^verbatim>\<open>env_rps\<close> and \<^verbatim>\<open>env_fg\<close> are the values \<^verbatim>\<open>float()\<close> returns for the two
  variables (on text that is not a number \<^verbatim>\<open>float()\<close> raises and no \<^verbatim>\<open>App\<close> is
  built).
\<close>

record limiters =
  tmdb_rps :: pyfloat
  tmdb_fg_limiter :: float_bucket
  tmdb_bg_limiter :: "float_bucket option"

definition init_limiters ::
    "(pyfloat \<Rightarrow> pyfloat \<Rightarrow> pyfloat) \<Rightarrow> pyfloat option \<Rightarrow> pyfloat option \<Rightarrow> real \<Rightarrow> limiters" where
  "init_limiters fsub env_rps env_fg now =
     (let R = (case env_rps of None \<Rightarrow> Fin 47 | Some r \<Rightarrow> r);
          fg_default = Fin 7;
          fg_cfg = (case env_fg of None \<Rightarrow> fg_default | Some f \<Rightarrow> f);
          fg = (if fgt R (Fin 1) then min_py fg_cfg (fsub R (Fin 1)) else R);
          bg = max_py (Fin 0) (fsub R fg)
      in \<lparr>tmdb_rps = R,
          tmdb_fg_limiter = TokenBucket_float fg (Some (max_py (Fin 1) fg)) now,
          tmdb_bg_limiter = (if fgt bg (Fin 0)
                             then Some (TokenBucket_float bg (Some (max_py (Fin 1) bg)) now)
                             else None)\<rparr>)"

subsection \<open>Python strings\<close>

text \<open>
  A Python \<^verbatim>\<open>str\<close> is a sequence of Unicode code points; it is modelled as the list
  of their numbers, and \<^verbatim>\<open>asc\<close> embeds a literal of ASCII characters.

  \<^verbatim>\<open>str.strip()\<close> removes the white space of Unicode from both ends: the
  characters for which \<^verbatim>\<open>str.isspace()\<close> holds, which are the 25 code points
  below (9 to 13, 28 to 32, U+0085, U+00A0, U+1680, U+2000 to U+200A, U+2028, U+2029,
  U+202F, U+205F and U+3000).
\<close>

type_synonym pystr = "nat list"

definition asc :: "string \<Rightarrow> pystr" where
  "asc s = map of_char s"

definition is_space :: "nat \<Rightarrow> bool" where
  "is_space c \<longleftrightarrow> c \<in> set [0x09, 0x0A, 0x0B, 0x0C, 0x0D, 0x1C, 0x1D, 0x1E, 0x1F, 0x20,
                            0x85, 0xA0, 0x1680,
                            0x2000, 0x2001, 0x2002, 0x2003, 0x2004, 0x2005, 0x2006, 0x2007,
                            0x2008, 0x2009, 0x200A,
                            0x2028, 0x2029, 0x202F, 0x205F, 0x3000]"

definition strip :: "pystr \<Rightarrow> pystr" where
  "strip s = rev (dropWhile is_space (rev (dropWhile is_space s)))"

text \<open>\<^verbatim>\<open>s.replace(a, b)\<close> for one-character \<^verbatim>\<open>a\<close> and \<^verbatim>\<open>b\<close>.\<close>

definition replace_char :: "nat \<Rightarrow> nat \<Rightarrow> pystr \<Rightarrow> pystr" where
  "replace_char a b s = map (\<lambda>c. if c = a then b else c) s"




subsection \<open>The locale resolver (\<^verbatim>\<open>lang.py\<close>)\<close>








definition lang_tag :: "pystr \<Rightarrow> pystr option \<Rightarrow> pystr" where
  "lang_tag iso639 iso3166 =
     (case iso3166 of
        None \<Rightarrow> iso639
      | Some r \<Rightarrow> if r = [] then iso639 else iso639 @ asc ''-'' @ r)"

subsection \<open>Optional text\<close>

text \<open>
  A text column that may be NULL, or a Python value that is a \<^verbatim>\<open>str\<close> or
  \<^verbatim>\<open>None\<close>, is a \<^typ>\<open>pystr option\<close>. \<^verbatim>\<open>a or b\<close> is \<^verbatim>\<open>a\<close> when \<^verbatim>\<open>a\<close> is
  truthy (neither \<^verbatim>\<open>None\<close> nor the empty string) and \<^verbatim>\<open>b\<close> otherwise;
  \<^verbatim>\<open>a or ""\<close> is then a string.
\<close>

definition str_truthy :: "pystr option \<Rightarrow> bool" where
  "str_truthy x \<longleftrightarrow> (case x of None \<Rightarrow> False | Some s \<Rightarrow> s \<noteq> [])"

definition or_opt :: "pystr option \<Rightarrow> pystr option \<Rightarrow> pystr option" where
  "or_opt a b = (if str_truthy a then a else b)"

definition or_empty :: "pystr option \<Rightarrow> pystr" where
  "or_empty a = (case a of None \<Rightarrow> [] | Some s \<Rightarrow> s)"

subsection \<open>The translation lookup (\<^verbatim>\<open>App._translated\<close>)\<close>

text \<open>
  The table \<^verbatim>\<open>title_translations\<close>: its rows in the order in which the engine
  visits them, NULL being \<^const>\<open>None\<close>. The table may be missing from the database,
  and \<^verbatim>\<open>App.__init__\<close> sets \<^verbatim>\<open>has_translations\<close> from \<^verbatim>\<open>sqlite_master\<close>: the
  flag is whether the table is there.
\<close>

record translation_row =
  tr_media_type :: pystr
  tr_tmdb_id :: int
  tr_iso_639_1 :: pystr
  tr_iso_3166_1 :: pystr
  tr_title :: "pystr option"
  tr_overview :: "pystr option"
  tr_tagline :: "pystr option"
  tr_homepage :: "pystr option"

record store =
  title_translations :: "translation_row list option"

definition has_translations :: "store \<Rightarrow> bool" where
  "has_translations db \<longleftrightarrow> title_translations db \<noteq> None"

definition translation_rows :: "store \<Rightarrow> translation_row list" where
  "translation_rows db = (case title_translations db of None \<Rightarrow> [] | Some rows \<Rightarrow> rows)"

text \<open>\<^verbatim>\<open>SELECT ... WHERE p LIMIT 1\<close> followed by \<^verbatim>\<open>fetchone()\<close>: the first matching row.\<close>

definition fetchone :: "('r \<Rightarrow> bool) \<Rightarrow> 'r list \<Rightarrow> 'r option" where
  "fetchone p rows = find p rows"

text \<open>The two \<^verbatim>\<open>WHERE\<close> clauses: language with region, and language alone.\<close>

definition where_exact :: "pystr \<Rightarrow> int \<Rightarrow> pystr \<Rightarrow> pystr \<Rightarrow> translation_row \<Rightarrow> bool" where
  "where_exact media_type tid iso639 iso3166 r \<longleftrightarrow>
     tr_media_type r = media_type \<and> tr_tmdb_id r = tid \<and> tr_iso_639_1 r = iso639
     \<and> tr_iso_3166_1 r = iso3166"

definition where_lang :: "pystr \<Rightarrow> int \<Rightarrow> pystr \<Rightarrow> translation_row \<Rightarrow> bool" where
  "where_lang media_type tid iso639 r \<longleftrightarrow>
     tr_media_type r = media_type \<and> tr_tmdb_id r = tid \<and> tr_iso_639_1 r = iso639"

definition translated ::
  "store \<Rightarrow> pystr \<Rightarrow> int \<Rightarrow> pystr \<Rightarrow> pystr option \<Rightarrow> pystr option \<times> pystr option" where
  "translated db media_type tid iso639 iso3166 =
     (if \<not> has_translations db then (None, None)
      else
        case (case iso3166 of
                None \<Rightarrow> None
              | Some rg \<Rightarrow>
                  if rg \<noteq> []
                  then fetchone (where_exact media_type tid iso639 rg) (translation_rows db)
                  else None) of
          Some r \<Rightarrow> (tr_title r, tr_overview r)
        | None \<Rightarrow>
            (case fetchone (where_lang media_type tid iso639) (translation_rows db) of
               Some r \<Rightarrow> (tr_title r, tr_overview r)
             | None \<Rightarrow> (None, None)))"

text \<open>
  What the callers do with the result (\<^verbatim>\<open>app.py\<close> lines 663, 685, 782 and 796,
  \<^verbatim>\<open>server.py\<close> lines 698, 878 and 933):
  \<^verbatim>\<open>name = (t_title or base or "").strip()\<close>, where \<^verbatim>\<open>base\<close> is the column
  \<^verbatim>\<open>title\<close> or \<^verbatim>\<open>name\<close> of the title's own row.
\<close>

definition card_name ::
  "store \<Rightarrow> pystr \<Rightarrow> int \<Rightarrow> pystr \<Rightarrow> pystr option \<Rightarrow> pystr option \<Rightarrow> pystr" where
  "card_name db media_type tid iso639 iso3166 base =
     (let (t_title, t_over) = translated db media_type tid iso639 iso3166
      in strip (or_empty (or_opt t_title base)))"

text \<open>
  The title page does the same with the overview (\<^verbatim>\<open>server.py\<close> line 699):
  \<^verbatim>\<open>description = (t_over or base_over or "").strip()\<close>.
\<close>

definition title_description ::
  "store \<Rightarrow> pystr \<Rightarrow> int \<Rightarrow> pystr \<Rightarrow> pystr option \<Rightarrow> pystr option \<Rightarrow> pystr" where
  "title_description db media_type tid iso639 iso3166 base_over =
     (let (t_title, t_over) = translated db media_type tid iso639 iso3166
      in strip (or_empty (or_opt t_over base_over)))"

text \<open>A small table used to run the lookup.\<close>

definition demo_translations :: "translation_row list" where
  "demo_translations =
     [\<lparr>tr_media_type = asc ''movie'', tr_tmdb_id = 1, tr_iso_639_1 = asc ''de'',
        tr_iso_3166_1 = asc ''DE'', tr_title = Some (asc ''Der Film''),
        tr_overview = Some (asc ''Ein Film''), tr_tagline = None, tr_homepage = None\<rparr>,
      \<lparr>tr_media_type = asc ''movie'', tr_tmdb_id = 1, tr_iso_639_1 = asc ''de'',
        tr_iso_3166_1 = asc ''AT'', tr_title = Some (asc ''Film AT''),
        tr_overview = None, tr_tagline = None, tr_homepage = None\<rparr>]"

definition demo_store :: store where
  "demo_store = \<lparr>title_translations = Some demo_translations\<rparr>"

subsection \<open>JSON values\<close>

text \<open>
  The values \<^verbatim>\<open>json.loads\<close> returns. An object is a Python \<^verbatim>\<open>dict\<close>: the
  list of its items in insertion order.
\<close>

datatype json =
    JNull
  | JBool bool
  | JInt int
  | JFloat real
  | JStr pystr
  | JArr "json list"
  | JObj "(pystr \<times> json) list"


subsection \<open>The Provider client (\<^verbatim>\<open>App._tmdb_open\<close>, \<^verbatim>\<open>App._tmdb_get_json\<close>)\<close>

text \<open>
  The Provider is outside the program. What it answers to the \<open>n\<close>th request the
  process sends is \<open>provider n\<close>: either \<^verbatim>\<open>opener.open\<close> raises (a transport error,
  or the \<^verbatim>\<open>HTTPError\<close> that \<^verbatim>\<open>urllib\<close> makes of an error status), or it returns a
  response. Of a response the client reads \<^verbatim>\<open>getattr(resp, "status", None)\<close>, the
  header \<^verbatim>\<open>Retry-After\<close> (read by nothing in \<^verbatim>\<open>app.py\<close>) and the body, which is
  \<open>Unreadable\<close> when \<^verbatim>\<open>resp.read()\<close>, \<^verbatim>\<open>decode("utf-8")\<close> or \<^verbatim>\<open>json.loads\<close>
  raises and the parsed value otherwise.
\<close>

datatype response_body = Unreadable | Parsed json

record http_response =
  status :: "int option"
  retry_after :: "pystr option"
  body :: response_body

datatype open_outcome = OpenRaises | Opened http_response

type_synonym provider = "nat \<Rightarrow> open_outcome"

text \<open>
  \<^verbatim>\<open>_tmdb_open\<close>: without an API key it returns \<^verbatim>\<open>None\<close> and sends nothing;
  otherwise it takes a token from a limiter and sends one request. The second
  component counts the requests sent so far. (Waiting for the token delays the request
  and changes nothing else here.)
\<close>

datatype open_result = NoResponse | Raised | Resp http_response

definition tmdb_open :: "pystr option \<Rightarrow> provider \<Rightarrow> nat \<Rightarrow> open_result \<times> nat" where
  "tmdb_open tmdb_key provider sent =
     (if \<not> str_truthy tmdb_key then (NoResponse, sent)
      else case provider sent of
             OpenRaises \<Rightarrow> (Raised, sent + 1)
           | Opened r \<Rightarrow> (Resp r, sent + 1))"







subsection \<open>The similar-titles lookup (\<^verbatim>\<open>App._tmdb_similar\<close>)\<close>

text \<open>
  The state the lookup works on: the cache, a dictionary from
  \<^verbatim>\<open>(kind, tid, lang_tag)\<close> to the pair of the time of the entry and the list of
  cards, and the number of requests sent to the Provider so far. The type \<open>'c\<close> is
  the type of a card.
\<close>

type_synonym similar_key = "pystr \<times> int \<times> pystr"

record 'c similar_state =
  similar_cache :: "similar_key \<rightharpoonup> (real \<times> 'c list)"
  sent :: nat

definition similar_ttl_s :: real where
  "similar_ttl_s = 3 * 24 * 3600"

text \<open>
  The lookup at the clock reading \<open>now\<close>. Two parts of it are parameters, since
  nothing below depends on what they compute: \<open>cards_of\<close> is the loop that builds
  the cards from the parsed body of a 200 response (lines 834 to 851), \<^const>\<open>None\<close>
  when it raises, which the \<^verbatim>\<open>except\<close> turns into the empty list; \<open>enrich\<close> is
  the pass over a non-empty list with \<^verbatim>\<open>_enrich_card\<close> and a database connection
  (lines 856 to 861), \<^const>\<open>None\<close> when it raises, and then the exception leaves
  the lookup and nothing is cached. The result \<^const>\<open>None\<close> is that exception.
\<close>

definition tmdb_similar ::
    "(json \<Rightarrow> 'c list option) \<Rightarrow> ('c list \<Rightarrow> 'c list option) \<Rightarrow> pystr option \<Rightarrow> provider \<Rightarrow>
     'c similar_state \<Rightarrow> pystr \<Rightarrow> int \<Rightarrow> pystr \<Rightarrow> pystr option \<Rightarrow> real \<Rightarrow>
     'c list option \<times> 'c similar_state" where
  "tmdb_similar cards_of enrich tmdb_key provider s kind tid iso639 iso3166 now =
     (if \<not> str_truthy tmdb_key then (Some [], s)
      else
        let k = (kind, tid, lang_tag iso639 iso3166);
            cur = similar_cache s k
        in if (case cur of None \<Rightarrow> False | Some (t0, cached) \<Rightarrow> now - t0 < similar_ttl_s)
           then (Some (case cur of None \<Rightarrow> [] | Some (t0, cached) \<Rightarrow> cached), s)
           else
             case tmdb_open tmdb_key provider (sent s) of
               (NoResponse, n) \<Rightarrow> (Some [], s\<lparr>sent := n\<rparr>)
             | (opened, n) \<Rightarrow>
                 let out = (case opened of
                              Resp resp \<Rightarrow>
                                if status resp = Some 200
                                then (case body resp of
                                        Unreadable \<Rightarrow> []
                                      | Parsed data \<Rightarrow>
                                          (case cards_of data of None \<Rightarrow> [] | Some cs \<Rightarrow> cs))
                                else []
                            | _ \<Rightarrow> [])
                 in if out \<noteq> []
                    then (case enrich out of
                            None \<Rightarrow> (None, s\<lparr>sent := n\<rparr>)
                          | Some out' \<Rightarrow>
                              (Some out', s\<lparr>similar_cache := (similar_cache s)(k \<mapsto> (now, out')),
                                           sent := n\<rparr>))
                    else (Some [], s\<lparr>similar_cache := (similar_cache s)(k \<mapsto> (now, [])),
                                     sent := n\<rparr>))"

text \<open>
  A sequence of lookups, one after the other on the same application: each is the
  arguments \<^verbatim>\<open>(kind, tid, iso639, iso3166)\<close> and the clock reading. For each lookup
  the run records its arguments, its result and the number of requests sent before and
  after it.
\<close>

type_synonym similar_call = "pystr \<times> int \<times> pystr \<times> pystr option \<times> real"

fun call_key :: "similar_call \<Rightarrow> similar_key" where
  "call_key (kind, tid, iso639, iso3166, now) = (kind, tid, lang_tag iso639 iso3166)"

fun call_now :: "similar_call \<Rightarrow> real" where
  "call_now (kind, tid, iso639, iso3166, now) = now"

fun similar_seq ::
    "(json \<Rightarrow> 'c list option) \<Rightarrow> ('c list \<Rightarrow> 'c list option) \<Rightarrow> pystr option \<Rightarrow> provider \<Rightarrow>
     'c similar_state \<Rightarrow> similar_call list \<Rightarrow> (similar_call \<times> 'c list option \<times> nat \<times> nat) list" where
  "similar_seq cards_of enrich tmdb_key provider s [] = []"
| "similar_seq cards_of enrich tmdb_key provider s ((kind, tid, iso639, iso3166, now) # calls) =
     (let (res, s') = tmdb_similar cards_of enrich tmdb_key provider s kind tid iso639 iso3166 now
      in ((kind, tid, iso639, iso3166, now), res, sent s, sent s')
         # similar_seq cards_of enrich tmdb_key provider s' calls)"

text \<open>A Provider that is down, and an application that has just started.\<close>

definition down_provider :: provider where
  "down_provider n = OpenRaises"

definition fresh_similar :: "json similar_state" where
  "fresh_similar = \<lparr>similar_cache = Map.empty, sent = 0\<rparr>"

subsection \<open>The backfill scheduler (\<^verbatim>\<open>App._schedule_backfill\<close>)\<close>

text \<open>
  The state of the scheduler: \<^verbatim>\<open>backfill_recent\<close>, a dictionary from the key
  \<^verbatim>\<open>(media_type, tid, lang_tag, 1 if full else 0)\<close> to the clock reading of the last
  call that went past the dedup test; \<^verbatim>\<open>backfill_inflight\<close>, the set of the keys
  whose task has been submitted and has not ended, kept as the list of its members in
  the order they came in (a key is added only when it is not there, so the length of
  the list is \<^verbatim>\<open>len\<close> of the set); and the tasks handed to
  \<^verbatim>\<open>backfill_ex.submit\<close>, each as its key with the clock reading of the call that
  submitted it.
\<close>

type_synonym backfill_key = "pystr \<times> int \<times> pystr \<times> int"

record backfill_state =
  backfill_recent :: "backfill_key \<rightharpoonup> real"
  backfill_inflight :: "backfill_key list"
  submitted :: "(backfill_key \<times> real) list"

definition backfill_ttl_s :: real where
  "backfill_ttl_s = 10 * 60"

text \<open>The guard of the first line: no API key, a media type other than the two, or an id that is not positive.\<close>

definition backfill_refused :: "pystr option \<Rightarrow> pystr \<Rightarrow> int \<Rightarrow> bool" where
  "backfill_refused tmdb_key media_type tid \<longleftrightarrow>
     \<not> str_truthy tmdb_key \<or> media_type \<notin> {asc ''movie'', asc ''tv''} \<or> tid \<le> 0"

text \<open>
  \<^verbatim>\<open>_schedule_backfill\<close> at the clock reading \<open>now\<close>. The test
  \<^verbatim>\<open>t0 and (now - t0) < self.backfill_ttl_s\<close> is false for a key that is not in the
  dictionary and for a recorded time of zero.
\<close>

definition schedule_backfill ::
    "pystr option \<Rightarrow> int \<Rightarrow> backfill_state \<Rightarrow> pystr \<Rightarrow> int \<Rightarrow> pystr \<Rightarrow> pystr option \<Rightarrow> bool \<Rightarrow> real \<Rightarrow>
     backfill_state" where
  "schedule_backfill tmdb_key queue_limit s media_type tid iso639 iso3166 full now =
     (if backfill_refused tmdb_key media_type tid then s
      else
        let k = (media_type, tid, lang_tag iso639 iso3166, if full then 1 else 0)
        in if (case backfill_recent s k of
                 None \<Rightarrow> False
               | Some t0 \<Rightarrow> t0 \<noteq> 0 \<and> now - t0 < backfill_ttl_s)
           then s
           else
             let s1 = s\<lparr>backfill_recent := (backfill_recent s)(k \<mapsto> now)\<rparr>
             in if int (length (backfill_inflight s1)) \<ge> queue_limit \<or> k \<in> set (backfill_inflight s1)
                then s1
                else s1\<lparr>backfill_inflight := backfill_inflight s1 @ [k],
                        submitted := submitted s1 @ [(k, now)]\<rparr>)"

text \<open>
  What happens to the scheduler over time: calls of \<^verbatim>\<open>_schedule_backfill\<close>, and
  tasks that end, whose \<^verbatim>\<open>finally\<close> block discards their key from
  \<^verbatim>\<open>backfill_inflight\<close>.
\<close>

datatype backfill_event =
    Schedule pystr int pystr "pystr option" bool real
  | TaskEnds backfill_key

fun backfill_step :: "pystr option \<Rightarrow> int \<Rightarrow> backfill_state \<Rightarrow> backfill_event \<Rightarrow> backfill_state" where
  "backfill_step tmdb_key queue_limit s (Schedule media_type tid iso639 iso3166 full now) =
     schedule_backfill tmdb_key queue_limit s media_type tid iso639 iso3166 full now"
| "backfill_step tmdb_key queue_limit s (TaskEnds k) =
     s\<lparr>backfill_inflight := removeAll k (backfill_inflight s)\<rparr>"

fun backfill_run :: "pystr option \<Rightarrow> int \<Rightarrow> backfill_state \<Rightarrow> backfill_event list \<Rightarrow> backfill_state" where
  "backfill_run tmdb_key queue_limit s [] = s"
| "backfill_run tmdb_key queue_limit s (e # es) =
     backfill_run tmdb_key queue_limit (backfill_step tmdb_key queue_limit s e) es"

text \<open>The state \<^verbatim>\<open>App.__init__\<close> builds.\<close>

definition init_backfill :: backfill_state where
  "init_backfill = \<lparr>backfill_recent = Map.empty, backfill_inflight = [], submitted = []\<rparr>"

text \<open>The clock reading of an event that is a call.\<close>

fun clock_positive :: "backfill_event \<Rightarrow> bool" where
  "clock_positive (Schedule media_type tid iso639 iso3166 full now) = (0 < now)"
| "clock_positive (TaskEnds k) = True"

text \<open>
  What holds of every state the scheduler reaches: a recorded time is not zero and its
  key passes the guard; every submitted task has a recorded time for its key, which is
  the time of the submission or at least the TTL later; and two submissions of one key
  are at least the TTL apart.
\<close>

definition spaced :: "(backfill_key \<times> real) list \<Rightarrow> bool" where
  "spaced sub \<longleftrightarrow>
     (\<forall>i j. i < j \<and> j < length sub \<and> fst (sub ! i) = fst (sub ! j) \<longrightarrow>
        snd (sub ! j) - snd (sub ! i) \<ge> backfill_ttl_s)"

definition backfill_inv :: "pystr option \<Rightarrow> backfill_state \<Rightarrow> bool" where
  "backfill_inv tmdb_key s \<longleftrightarrow>
     (\<forall>k ts. backfill_recent s k = Some ts \<longrightarrow>
        ts \<noteq> 0 \<and> \<not> backfill_refused tmdb_key (fst k) (fst (snd k)))
     \<and> (\<forall>x \<in> set (submitted s). \<exists>ts. backfill_recent s (fst x) = Some ts
            \<and> (ts = snd x \<or> ts - snd x \<ge> backfill_ttl_s))
     \<and> spaced (submitted s)"

section \<open>Theorems\<close>

subsection \<open>Token bucket\<close>

lemma refill_inv: "rate b > 0 \<Longrightarrow> bucket_inv b \<Longrightarrow> bucket_inv (refill b now)"
  by (auto simp: refill_def bucket_inv_def Let_def min_def intro: add_nonneg_nonneg)

lemma refill_rate [simp]: "rate (refill b now) = rate b"
  by (simp add: refill_def Let_def)

lemma refill_capacity [simp]: "capacity (refill b now) = capacity b"
  by (simp add: refill_def Let_def)

lemma acquire_step_inv:
  assumes "rate b > 0" "0 < n" "bucket_inv b"
  shows "bucket_inv (fst (acquire_step b n now))"
proof -
  have "bucket_inv (refill b now)" using assms refill_inv by blast
  then show ?thesis using assms(2)
    by (auto simp: acquire_step_def Let_def bucket_inv_def)
qed

lemma acquire_step_rate [simp]: "rate (fst (acquire_step b n now)) = rate b"
  by (simp add: acquire_step_def Let_def)

lemma acquire_step_capacity [simp]: "capacity (fst (acquire_step b n now)) = capacity b"
  by (simp add: acquire_step_def Let_def)

lemma acquire_loop_keeps:
  "rate (fst (acquire_loop b n clock)) = rate b \<and>
   capacity (fst (acquire_loop b n clock)) = capacity b"
proof (induction clock arbitrary: b)
  case Nil
  show ?case by simp
next
  case (Cons now clock)
  obtain b' r where st: "acquire_step b n now = (b', r)" by (cases "acquire_step b n now")
  have k: "rate b' = rate b" "capacity b' = capacity b"
    using acquire_step_rate [of b n now] acquire_step_capacity [of b n now] st by simp_all
  show ?case using st k Cons.IH [of b'] by (cases r) simp_all
qed

lemma acquire_loop_inv:
  "rate b > 0 \<Longrightarrow> 0 < n \<Longrightarrow> bucket_inv b \<Longrightarrow> bucket_inv (fst (acquire_loop b n clock))"
proof (induction clock arbitrary: b)
  case Nil
  then show ?case by simp
next
  case (Cons now clock)
  obtain b' r where st: "acquire_step b n now = (b', r)" by (cases "acquire_step b n now")
  have i: "bucket_inv b'" using acquire_step_inv [OF Cons.prems, of now] st by simp
  have k: "rate b' > 0" using acquire_step_rate [of b n now] st Cons.prems(1) by simp
  show ?case using st i Cons.IH [OF k Cons.prems(2) i] by (cases r) simp_all
qed

lemma acquire_inv:
  "0 < n \<Longrightarrow> bucket_inv b \<Longrightarrow> bucket_inv (fst (acquire b n clock))"
  by (simp add: acquire_def acquire_loop_inv)

lemma acquire_keeps:
  "rate (fst (acquire b n clock)) = rate b \<and> capacity (fst (acquire b n clock)) = capacity b"
  using acquire_loop_keeps [of b n clock] by (simp add: acquire_def)


text \<open>
  Progress: when the clock does not run behind the bucket's own timestamp and the
  sleep lasts at least as long as asked, the second iteration obtains the tokens.
\<close>

lemma acquire_loop_progress:
  assumes r: "rate b > 0" and n: "n \<le> capacity b" and c: "t b \<le> now1"
    and s: "acquire_step b n now1 = (b1, Some need)" and w: "now1 + need \<le> now2"
  shows "snd (acquire_loop b n (now1 # now2 # clock)) = True"
proof -
  have lt: "tokens b1 < n" and b1: "b1 = refill b now1" and nd: "need = (n - tokens b1) / rate b1"
    using s by (auto simp: acquire_step_def Let_def split: if_splits)
  have rb: "rate b1 = rate b" and cb: "capacity b1 = capacity b" using b1 by simp_all
  have tb: "t b1 = now1" using b1 c by (auto simp: refill_def Let_def)
  have pos: "need > 0" using lt nd r rb by simp
  have dt: "now2 - t b1 \<ge> need" using w tb by simp
  have "need * rate b1 = n - tokens b1" using nd r rb by simp
  moreover have "(now2 - t b1) * rate b1 \<ge> need * rate b1"
    using dt r rb by (simp add: mult_right_mono)
  ultimately have ge: "tokens b1 + (now2 - t b1) * rate b1 \<ge> n" by linarith
  have "tokens (refill b1 now2) \<ge> n"
    using ge n cb dt pos by (auto simp: refill_def Let_def min_def)
  then have "snd (acquire_step b1 n now2) = None"
    by (simp add: acquire_step_def Let_def)
  then show ?thesis using s by (auto split: prod.splits option.splits)
qed

lemma acquire_seq_inv:
  "bucket_inv b \<Longrightarrow> \<forall>c \<in> set calls. 0 < fst c \<Longrightarrow>
   \<forall>b' \<in> set (acquire_seq b calls). bucket_inv b'"
proof (induction calls arbitrary: b)
  case Nil
  then show ?case by simp
next
  case (Cons c calls)
  obtain n clock where c: "c = (n, clock)" by (cases c)
  have n: "0 < n" using Cons.prems(2) c by simp
  have i: "bucket_inv (fst (acquire b n clock))"
    using acquire_inv [OF n Cons.prems(1)] .
  have r: "\<forall>c \<in> set calls. 0 < fst c" using Cons.prems(2) by simp
  show ?case using c i Cons.IH [OF i r] by (simp add: Let_def)
qed

text \<open>
  Claim C9. A bucket built by the constructor with a positive rate, after any sequence
  of calls \<^verbatim>\<open>acquire(n)\<close> with \<open>0 < n \<le> capacity\<close> and any clock readings,
  has \<open>0 \<le> tokens \<le> capacity\<close> after every call (also after a call whose
  readings end before the tokens were obtained, so in every state the loop reaches).
\<close>

theorem C9_token_bucket_invariant:
  assumes "r > 0" and "b0 = TokenBucket r cap now"
    and "\<forall>(n, clock) \<in> set calls. 0 < n \<and> n \<le> capacity b0"
  shows "\<forall>b \<in> set (acquire_seq b0 calls). 0 \<le> tokens b \<and> tokens b \<le> capacity b"
proof (cases calls)
  case Nil
  then show ?thesis by simp
next
  case (Cons c cs)
  have a: "\<forall>c \<in> set calls. 0 < fst c \<and> fst c \<le> capacity b0"
    using assms(3) by (simp add: case_prod_beta)
  have "c \<in> set calls" using Cons by simp
  then have "0 < capacity b0" using a by force
  then have i0: "bucket_inv b0"
    using assms(2) by (simp add: TokenBucket_def bucket_inv_def Let_def)
  have p: "\<forall>c \<in> set calls. 0 < fst c" using a by simp
  have "\<forall>b' \<in> set (acquire_seq b0 calls). bucket_inv b'"
    using acquire_seq_inv [OF i0 p] .
  then show ?thesis by (simp add: bucket_inv_def)
qed

theorem C9_token_bucket_invariant_witness:
  "0 \<le> tokens (last (acquire_seq (TokenBucket 2 None 0) [(1, [0]), (2, [0, 1])])) \<and>
   tokens (last (acquire_seq (TokenBucket 2 None 0) [(1, [0]), (2, [0, 1])]))
     \<le> capacity (last (acquire_seq (TokenBucket 2 None 0) [(1, [0]), (2, [0, 1])]))"
proof -
  have h: "\<forall>(n, clock) \<in> set [(1, [0]), (2, [0, 1])].
             (0::real) < n \<and> n \<le> capacity (TokenBucket 2 None 0)"
    by (simp add: TokenBucket_def)
  have g: "(0::real) < 2" by simp
  note r = C9_token_bucket_invariant [OF g refl h]
  have "acquire_seq (TokenBucket 2 None 0) [(1, [0]), (2, [0, 1])] \<noteq> []"
    by (simp add: Let_def)
  then have "last (acquire_seq (TokenBucket 2 None 0) [(1, [0]), (2, [0, 1])])
      \<in> set (acquire_seq (TokenBucket 2 None 0) [(1, [0]), (2, [0, 1])])"
    by (rule last_in_set)
  with r show ?thesis by (rule bspec)
qed

subsection \<open>The limiter split\<close>

lemma init_limiters_rps:
  "tmdb_rps (init_limiters fsub env_rps env_fg now) = (case env_rps of None \<Rightarrow> Fin 47 | Some r \<Rightarrow> r)"
  by (simp add: init_limiters_def Let_def)

lemma init_limiters_fg:
  assumes "R = (case env_rps of None \<Rightarrow> Fin 47 | Some r \<Rightarrow> r)"
    and "cfg = (case env_fg of None \<Rightarrow> Fin 7 | Some f \<Rightarrow> f)"
    and "fg = (if fgt R (Fin 1) then min_py cfg (fsub R (Fin 1)) else R)"
  shows "tmdb_fg_limiter (init_limiters fsub env_rps env_fg now)
           = \<lparr>frate = fg, fcapacity = max_py (Fin 1) fg, ftokens = max_py (Fin 1) fg, ft = now\<rparr>"
  using assms by (simp add: init_limiters_def TokenBucket_float_def Let_def)

lemma init_limiters_bg:
  assumes "R = (case env_rps of None \<Rightarrow> Fin 47 | Some r \<Rightarrow> r)"
    and "cfg = (case env_fg of None \<Rightarrow> Fin 7 | Some f \<Rightarrow> f)"
    and "fg = (if fgt R (Fin 1) then min_py cfg (fsub R (Fin 1)) else R)"
    and "bg = max_py (Fin 0) (fsub R fg)"
  shows "tmdb_bg_limiter (init_limiters fsub env_rps env_fg now)
           = (if fgt bg (Fin 0)
              then Some \<lparr>frate = bg, fcapacity = max_py (Fin 1) bg, ftokens = max_py (Fin 1) bg, ft = now\<rparr>
              else None)"
  using assms by (simp add: init_limiters_def TokenBucket_float_def Let_def)

lemma max_py_zero_not_pos: "\<not> fgt x (Fin 0) \<Longrightarrow> \<not> fgt (max_py (Fin 0) x) (Fin 0)"
  by (simp add: max_py_def)

lemma min_py_Fin: "min_py (Fin a) (Fin b) = Fin (min a b)"
  by (simp add: min_py_def min_def)

lemma max_py_Fin: "max_py (Fin a) (Fin b) = Fin (max a b)"
  by (simp add: max_py_def max_def)

text \<open>
  Claim C6, as stated, at a total rate of 1 with the default foreground rate 7: the
  claim's formula gives the foreground rate \<open>min 7 (1 - 1) = 0\<close>, the code gives 1,
  and no background bucket is created.
\<close>

theorem C6_counterexample:
  "frate (tmdb_fg_limiter (init_limiters exact_sub (Some (Fin 1)) None 0))
      \<noteq> min_py (Fin 7) (exact_sub (Fin 1) (Fin 1)) \<and>
   min_py (Fin 7) (exact_sub (Fin 1) (Fin 1)) = Fin 0 \<and>
   frate (tmdb_fg_limiter (init_limiters exact_sub (Some (Fin 1)) None 0)) = Fin 1 \<and>
   tmdb_bg_limiter (init_limiters exact_sub (Some (Fin 1)) None 0) = None"
  by (simp add: init_limiters_def TokenBucket_float_def Let_def min_py_def max_py_def)

text \<open>
  Claim C6, amended. With the configured total rate \<open>R\<close> (default 47), the
  configured foreground rate \<open>cfg\<close> (default 7) and the subtraction \<open>fsub\<close> of
  floats: the foreground bucket has rate \<open>fg = min cfg (R - 1)\<close> when \<open>R > 1\<close>
  and rate \<open>fg = R\<close> otherwise; with \<open>bg = max 0 (R - fg)\<close>, a background bucket
  of rate \<open>bg\<close> is created when \<open>bg > 0\<close> and none otherwise. So none is
  created when \<open>R > 1\<close> does not hold (\<open>R - R\<close> is not positive), and none when
  \<open>R - 1\<close> rounds to \<open>R\<close> and \<open>cfg \<ge> R\<close>. When \<open>R > 1\<close> and the two
  subtractions are exact, the background bucket exists, its rate is \<open>R - fg\<close> and
  is at least 1. Every bucket created has capacity \<open>max 1 rate\<close> and starts full.
\<close>

theorem C6_limiter_split:
  assumes "L = init_limiters fsub env_rps env_fg now"
    and "R = (case env_rps of None \<Rightarrow> Fin 47 | Some r \<Rightarrow> r)"
    and "cfg = (case env_fg of None \<Rightarrow> Fin 7 | Some f \<Rightarrow> f)"
    and "fg = frate (tmdb_fg_limiter L)"
    and "bg = max_py (Fin 0) (fsub R fg)"
  shows "tmdb_rps L = R
    \<and> (fgt R (Fin 1) \<longrightarrow> fg = min_py cfg (fsub R (Fin 1)))
    \<and> (\<not> fgt R (Fin 1) \<longrightarrow> fg = R)
    \<and> fcapacity (tmdb_fg_limiter L) = max_py (Fin 1) fg
    \<and> ftokens (tmdb_fg_limiter L) = fcapacity (tmdb_fg_limiter L)
    \<and> (fgt bg (Fin 0) \<longrightarrow>
         (\<exists>b. tmdb_bg_limiter L = Some b \<and> frate b = bg
              \<and> fcapacity b = max_py (Fin 1) bg \<and> ftokens b = fcapacity b))
    \<and> (\<not> fgt bg (Fin 0) \<longrightarrow> tmdb_bg_limiter L = None)
    \<and> (\<not> fgt R (Fin 1) \<and> \<not> fgt (fsub R R) (Fin 0) \<longrightarrow> tmdb_bg_limiter L = None)
    \<and> (fgt R (Fin 1) \<and> fsub R (Fin 1) = R \<and> (fgt cfg R \<or> cfg = R)
          \<and> \<not> fgt (fsub R R) (Fin 0) \<longrightarrow> tmdb_bg_limiter L = None)
    \<and> (\<forall>r c. R = Fin r \<and> cfg = Fin c \<and> r > 1 \<and> fsub R (Fin 1) = Fin (r - 1)
            \<and> fsub R (Fin (min c (r - 1))) = Fin (r - min c (r - 1)) \<longrightarrow>
          fg = Fin (min c (r - 1))
          \<and> (\<exists>b. tmdb_bg_limiter L = Some b \<and> frate b = Fin (r - min c (r - 1)))
          \<and> r - min c (r - 1) \<ge> 1)"
proof -
  define fg' where "fg' = (if fgt R (Fin 1) then min_py cfg (fsub R (Fin 1)) else R)"
  note F = init_limiters_fg [where fsub = fsub and now = now, OF assms(2) assms(3) fg'_def]
  have fg: "fg = fg'" unfolding assms(4) assms(1) F by simp
  have bg: "bg = max_py (Fin 0) (fsub R fg')" using assms(5) fg by simp
  note B = init_limiters_bg [where fsub = fsub and now = now, OF assms(2) assms(3) fg'_def bg]
  have 1: "tmdb_rps L = R"
    unfolding assms(1) assms(2) by (rule init_limiters_rps)
  have 2: "fgt R (Fin 1) \<longrightarrow> fg = min_py cfg (fsub R (Fin 1))"
    using fg by (simp add: fg'_def)
  have 3: "\<not> fgt R (Fin 1) \<longrightarrow> fg = R"
    using fg by (simp add: fg'_def)
  have 4: "fcapacity (tmdb_fg_limiter L) = max_py (Fin 1) fg"
    unfolding assms(1) F fg by simp
  have 5: "ftokens (tmdb_fg_limiter L) = fcapacity (tmdb_fg_limiter L)"
    unfolding assms(1) F by simp
  have 6: "fgt bg (Fin 0) \<longrightarrow>
         (\<exists>b. tmdb_bg_limiter L = Some b \<and> frate b = bg
              \<and> fcapacity b = max_py (Fin 1) bg \<and> ftokens b = fcapacity b)"
    unfolding assms(1) B by simp
  have 7: "\<not> fgt bg (Fin 0) \<longrightarrow> tmdb_bg_limiter L = None"
    unfolding assms(1) B by simp
  have 8: "\<not> fgt R (Fin 1) \<and> \<not> fgt (fsub R R) (Fin 0) \<longrightarrow> tmdb_bg_limiter L = None"
  proof
    assume a: "\<not> fgt R (Fin 1) \<and> \<not> fgt (fsub R R) (Fin 0)"
    then have "fg = R" using 3 by simp
    then have "bg = max_py (Fin 0) (fsub R R)" using assms(5) by simp
    then have "\<not> fgt bg (Fin 0)" using a max_py_zero_not_pos by simp
    then show "tmdb_bg_limiter L = None" using 7 by simp
  qed
  have 9: "fgt R (Fin 1) \<and> fsub R (Fin 1) = R \<and> (fgt cfg R \<or> cfg = R)
          \<and> \<not> fgt (fsub R R) (Fin 0) \<longrightarrow> tmdb_bg_limiter L = None"
  proof
    assume a: "fgt R (Fin 1) \<and> fsub R (Fin 1) = R \<and> (fgt cfg R \<or> cfg = R)
          \<and> \<not> fgt (fsub R R) (Fin 0)"
    then have "fg = min_py cfg R" using 2 by simp
    then have "fg = R" using a by (auto simp: min_py_def)
    then have "bg = max_py (Fin 0) (fsub R R)" using assms(5) by simp
    then have "\<not> fgt bg (Fin 0)" using a max_py_zero_not_pos by simp
    then show "tmdb_bg_limiter L = None" using 7 by simp
  qed
  have 10: "\<forall>r c. R = Fin r \<and> cfg = Fin c \<and> r > 1 \<and> fsub R (Fin 1) = Fin (r - 1)
            \<and> fsub R (Fin (min c (r - 1))) = Fin (r - min c (r - 1)) \<longrightarrow>
          fg = Fin (min c (r - 1))
          \<and> (\<exists>b. tmdb_bg_limiter L = Some b \<and> frate b = Fin (r - min c (r - 1)))
          \<and> r - min c (r - 1) \<ge> 1"
  proof (intro allI impI)
    fix r c
    assume a: "R = Fin r \<and> cfg = Fin c \<and> r > 1 \<and> fsub R (Fin 1) = Fin (r - 1)
            \<and> fsub R (Fin (min c (r - 1))) = Fin (r - min c (r - 1))"
    have R: "R = Fin r" using a by blast
    have c: "cfg = Fin c" using a by blast
    have r: "r > 1" using a by blast
    have s1: "fsub R (Fin 1) = Fin (r - 1)" using a by blast
    have s2: "fsub R (Fin (min c (r - 1))) = Fin (r - min c (r - 1))" using a by blast
    have g: "fgt R (Fin 1)" unfolding R using r by simp
    have "fg = min_py cfg (fsub R (Fin 1))" using 2 g by simp
    then have f: "fg = Fin (min c (r - 1))" by (simp only: s1 c min_py_Fin)
    have d: "r - min c (r - 1) \<ge> 1" by (simp add: min_def)
    have "bg = max_py (Fin 0) (fsub R (Fin (min c (r - 1))))"
      unfolding assms(5) f by (rule refl)
    then have "bg = max_py (Fin 0) (Fin (r - min c (r - 1)))" by (simp only: s2)
    then have b: "bg = Fin (r - min c (r - 1))" using d by (simp add: max_py_Fin max_def)
    then have "fgt bg (Fin 0)" using d by simp
    then obtain b' where "tmdb_bg_limiter L = Some b'" "frate b' = bg" using 6 by blast
    then have "\<exists>b. tmdb_bg_limiter L = Some b \<and> frate b = Fin (r - min c (r - 1))"
      using b by simp
    then show "fg = Fin (min c (r - 1))
          \<and> (\<exists>b. tmdb_bg_limiter L = Some b \<and> frate b = Fin (r - min c (r - 1)))
          \<and> r - min c (r - 1) \<ge> 1"
      using f d by simp
  qed
  show ?thesis using 1 2 3 4 5 6 7 8 9 10 by (intro conjI)
qed

theorem C6_limiter_split_witness:
  "frate (tmdb_fg_limiter (init_limiters exact_sub None None 0)) = Fin 7 \<and>
   (\<exists>b. tmdb_bg_limiter (init_limiters exact_sub None None 0) = Some b \<and> frate b = Fin 40
      \<and> fcapacity b = Fin 40 \<and> ftokens b = fcapacity b) \<and>
   frate (tmdb_fg_limiter (init_limiters exact_sub (Some (Fin (1/2))) None 0)) = Fin (1/2) \<and>
   fcapacity (tmdb_fg_limiter (init_limiters exact_sub (Some (Fin (1/2))) None 0)) = Fin 1 \<and>
   tmdb_bg_limiter (init_limiters exact_sub (Some (Fin (1/2))) None 0) = None \<and>
   tmdb_bg_limiter (init_limiters exact_sub (Some NaN) None 0) = None \<and>
   tmdb_bg_limiter
     (init_limiters (\<lambda>a b. if a = Fin (10 ^ 18) \<and> b = Fin 1 then a else exact_sub a b)
        (Some (Fin (10 ^ 18))) (Some (Fin (10 ^ 18))) 0) = None"
proof -
  let ?absorb = "\<lambda>a b. if a = Fin (10 ^ 18) \<and> b = Fin 1 then a else exact_sub a b"
  note t1 = C6_limiter_split [where fsub = exact_sub and env_rps = None and env_fg = None
      and now = 0, OF refl refl refl refl refl]
  note t2 = C6_limiter_split [where fsub = exact_sub and env_rps = "Some (Fin (1/2))"
      and env_fg = None and now = 0, OF refl refl refl refl refl]
  note t3 = C6_limiter_split [where fsub = exact_sub and env_rps = "Some NaN"
      and env_fg = None and now = 0, OF refl refl refl refl refl]
  note t4 = C6_limiter_split [where fsub = ?absorb and env_rps = "Some (Fin (10 ^ 18))"
      and env_fg = "Some (Fin (10 ^ 18))" and now = 0, OF refl refl refl refl refl]
  note c2 = conjunct2 [THEN conjunct1]
  note c3 = conjunct2 [THEN conjunct2, THEN conjunct1]
  note c4 = conjunct2 [THEN conjunct2, THEN conjunct2, THEN conjunct1]
  note c6 = conjunct2 [THEN conjunct2, THEN conjunct2, THEN conjunct2, THEN conjunct2, THEN conjunct1]
  note c8 = conjunct2 [THEN conjunct2, THEN conjunct2, THEN conjunct2, THEN conjunct2,
      THEN conjunct2, THEN conjunct2, THEN conjunct1]
  note c9 = conjunct2 [THEN conjunct2, THEN conjunct2, THEN conjunct2, THEN conjunct2,
      THEN conjunct2, THEN conjunct2, THEN conjunct2, THEN conjunct1]
  have a: "frate (tmdb_fg_limiter (init_limiters exact_sub None None 0)) = Fin 7"
    using t1 [THEN c2] by (simp add: min_py_def)
  have b: "\<exists>b. tmdb_bg_limiter (init_limiters exact_sub None None 0) = Some b \<and> frate b = Fin 40
      \<and> fcapacity b = Fin 40 \<and> ftokens b = fcapacity b"
    using t1 [THEN c6] by (simp add: a max_py_def)
  have c: "frate (tmdb_fg_limiter (init_limiters exact_sub (Some (Fin (1/2))) None 0)) = Fin (1/2)"
    using t2 [THEN c3] by simp
  have d: "fcapacity (tmdb_fg_limiter (init_limiters exact_sub (Some (Fin (1/2))) None 0)) = Fin 1"
    using t2 [THEN c4] by (simp add: c max_py_def)
  have e: "tmdb_bg_limiter (init_limiters exact_sub (Some (Fin (1/2))) None 0) = None"
    using t2 [THEN c8] by simp
  have f: "tmdb_bg_limiter (init_limiters exact_sub (Some NaN) None 0) = None"
    using t3 [THEN c8] by simp
  have g: "tmdb_bg_limiter (init_limiters ?absorb (Some (Fin (10 ^ 18))) (Some (Fin (10 ^ 18))) 0) = None"
    using t4 [THEN c9] by simp
  show ?thesis by (intro conjI a b c d e f g)
qed

subsection \<open>The locale resolver\<close>

lemma strip_strip [simp]: "strip (strip s) = strip s"
proof -
  have a: "dropWhile is_space (rev (dropWhile is_space (rev xs))) = rev (dropWhile is_space (rev xs))"
    if "xs = [] \<or> \<not> is_space (hd xs)" for xs
    using that by (cases xs) (auto simp: dropWhile_append3 dropWhile_append2 split: if_splits)
  have b: "ys = [] \<or> \<not> is_space (hd ys)" if "ys = dropWhile is_space zs" for ys zs
    using that hd_dropWhile [of is_space zs] by auto
  show ?thesis
    unfolding strip_def using a [OF b [OF refl]] by simp
qed




lemma replace_char_append: "replace_char a b (x @ y) = replace_char a b x @ replace_char a b y"
  by (simp add: replace_char_def)

lemma replace_char_Nil [simp]: "replace_char a b x = [] \<longleftrightarrow> x = []"
  by (simp add: replace_char_def)











subsection \<open>The translation lookup\<close>

lemma fetchone_Some:
  assumes "fetchone p rows = Some r"
  shows "p r \<and> (\<exists>pre post. rows = pre @ r # post \<and> (\<forall>x \<in> set pre. \<not> p x))"
proof -
  obtain i where i: "i < length rows" "p (rows ! i)" "r = rows ! i" "\<forall>j<i. \<not> p (rows ! j)"
    using assms by (auto simp: fetchone_def find_Some_iff)
  have "rows = take i rows @ r # drop (Suc i) rows" using i(1,3) by (simp add: id_take_nth_drop)
  moreover have "\<forall>x \<in> set (take i rows). \<not> p x"
    using i(1,4) by (auto simp: in_set_conv_nth)
  ultimately show ?thesis using i(2,3) by blast
qed

lemma fetchone_None: "fetchone p rows = None \<longleftrightarrow> (\<forall>x \<in> set rows. \<not> p x)"
  by (auto simp: fetchone_def find_None_iff)

lemma fetchone_exists: "\<exists>x \<in> set rows. p x \<Longrightarrow> \<exists>r. fetchone p rows = Some r"
  using fetchone_None [of p rows] by (cases "fetchone p rows") auto

lemma fetchone_first:
  assumes "p r" "\<forall>x \<in> set pre. \<not> p x"
  shows "fetchone p (pre @ r # post) = Some r"
  using assms by (induction pre) (auto simp: fetchone_def)

lemma translation_rows_absent: "\<not> has_translations db \<Longrightarrow> translation_rows db = []"
  by (simp add: has_translations_def translation_rows_def)

lemma translated_exact:
  assumes "fetchone (where_exact mt tid l rg) (translation_rows db) = Some r" "rg \<noteq> []"
  shows "translated db mt tid l (Some rg) = (tr_title r, tr_overview r)"
proof -
  have "translation_rows db \<noteq> []" using assms(1) by (auto simp: fetchone_def)
  then have "has_translations db" using translation_rows_absent by blast
  then show ?thesis using assms by (simp add: translated_def)
qed

lemma translated_lang:
  assumes "rg = None \<or> rg = Some []
           \<or> (\<exists>g. rg = Some g \<and> fetchone (where_exact mt tid l g) (translation_rows db) = None)"
    and "fetchone (where_lang mt tid l) (translation_rows db) = Some r"
  shows "translated db mt tid l rg = (tr_title r, tr_overview r)"
proof -
  have "translation_rows db \<noteq> []" using assms(2) by (auto simp: fetchone_def)
  then have h: "has_translations db" using translation_rows_absent by blast
  show ?thesis
  proof (cases rg)
    case None
    then show ?thesis using h assms(2) by (simp add: translated_def)
  next
    case (Some g)
    then have "g = [] \<or> fetchone (where_exact mt tid l g) (translation_rows db) = None"
      using assms(1) by auto
    then show ?thesis using h assms(2) Some by (auto simp: translated_def)
  qed
qed

lemma translated_none:
  assumes "fetchone (where_lang mt tid l) (translation_rows db) = None"
  shows "translated db mt tid l rg = (None, None)"
proof -
  have "fetchone (where_exact mt tid l g) (translation_rows db) = None" for g
    using assms by (auto simp: fetchone_None where_exact_def where_lang_def)
  then show ?thesis using assms by (simp add: translated_def split: option.splits)
qed

text \<open>
  Claim C4. When a (non-empty) region is given and a row matching kind, id, language
  and region exists, the lookup returns the title and overview of the first such row;
  otherwise, when a row matching kind, id and language exists, those of the first such
  row (so a title with a language row but no row for the region is rendered with the
  language row); otherwise \<open>(none, none)\<close>. The first row of a kind is the one no
  row of that kind precedes in the table. The caller takes the translated title when
  it is not empty, and the base column otherwise, and likewise for the overview: so the
  base columns whenever the lookup returns \<open>(none, none)\<close>.
\<close>

theorem C4_translation_fallback:
  fixes db :: store and mt l :: pystr and tid :: int and iso3166 base base_over :: "pystr option"
  shows "(\<forall>rg. iso3166 = Some rg \<and> rg \<noteq> []
              \<and> (\<exists>r \<in> set (translation_rows db). where_exact mt tid l rg r) \<longrightarrow>
            (\<exists>pre r post. translation_rows db = pre @ r # post \<and> where_exact mt tid l rg r
               \<and> (\<forall>x \<in> set pre. \<not> where_exact mt tid l rg x)
               \<and> translated db mt tid l iso3166 = (tr_title r, tr_overview r)))
       \<and> ((iso3166 = None \<or> iso3166 = Some []
             \<or> (\<exists>rg. iso3166 = Some rg
                    \<and> (\<forall>r \<in> set (translation_rows db). \<not> where_exact mt tid l rg r)))
            \<and> (\<exists>r \<in> set (translation_rows db). where_lang mt tid l r) \<longrightarrow>
            (\<exists>pre r post. translation_rows db = pre @ r # post \<and> where_lang mt tid l r
               \<and> (\<forall>x \<in> set pre. \<not> where_lang mt tid l x)
               \<and> translated db mt tid l iso3166 = (tr_title r, tr_overview r)))
       \<and> ((\<forall>r \<in> set (translation_rows db). \<not> where_lang mt tid l r) \<longrightarrow>
            translated db mt tid l iso3166 = (None, None))
       \<and> (\<forall>t. fst (translated db mt tid l iso3166) = Some t \<and> t \<noteq> [] \<longrightarrow>
            card_name db mt tid l iso3166 base = strip t)
       \<and> (fst (translated db mt tid l iso3166) = None
            \<or> fst (translated db mt tid l iso3166) = Some [] \<longrightarrow>
            card_name db mt tid l iso3166 base = strip (or_empty base))
       \<and> (\<forall>t. snd (translated db mt tid l iso3166) = Some t \<and> t \<noteq> [] \<longrightarrow>
            title_description db mt tid l iso3166 base_over = strip t)
       \<and> (snd (translated db mt tid l iso3166) = None
            \<or> snd (translated db mt tid l iso3166) = Some [] \<longrightarrow>
            title_description db mt tid l iso3166 base_over = strip (or_empty base_over))"
proof -
  have 1: "\<forall>rg. iso3166 = Some rg \<and> rg \<noteq> []
              \<and> (\<exists>r \<in> set (translation_rows db). where_exact mt tid l rg r) \<longrightarrow>
            (\<exists>pre r post. translation_rows db = pre @ r # post \<and> where_exact mt tid l rg r
               \<and> (\<forall>x \<in> set pre. \<not> where_exact mt tid l rg x)
               \<and> translated db mt tid l iso3166 = (tr_title r, tr_overview r))"
  proof (rule allI, rule impI)
    fix rg
    assume a: "iso3166 = Some rg \<and> rg \<noteq> []
              \<and> (\<exists>r \<in> set (translation_rows db). where_exact mt tid l rg r)"
    then have "\<exists>r \<in> set (translation_rows db). where_exact mt tid l rg r" by simp
    then obtain r where r: "fetchone (where_exact mt tid l rg) (translation_rows db) = Some r"
      using fetchone_exists [of "translation_rows db" "where_exact mt tid l rg"] by blast
    from fetchone_Some [OF r] obtain pre post where
      p: "where_exact mt tid l rg r" "translation_rows db = pre @ r # post"
         "\<forall>x \<in> set pre. \<not> where_exact mt tid l rg x" by blast
    have rg: "rg \<noteq> []" "iso3166 = Some rg" using a by simp_all
    have t: "translated db mt tid l iso3166 = (tr_title r, tr_overview r)"
      using translated_exact [OF r rg(1)] rg(2) by simp
    show "\<exists>pre r post. translation_rows db = pre @ r # post \<and> where_exact mt tid l rg r
               \<and> (\<forall>x \<in> set pre. \<not> where_exact mt tid l rg x)
               \<and> translated db mt tid l iso3166 = (tr_title r, tr_overview r)"
      using p t by (intro exI [of _ pre] exI [of _ r] exI [of _ post]) simp
  qed
  have 2: "(iso3166 = None \<or> iso3166 = Some []
             \<or> (\<exists>rg. iso3166 = Some rg
                    \<and> (\<forall>r \<in> set (translation_rows db). \<not> where_exact mt tid l rg r)))
            \<and> (\<exists>r \<in> set (translation_rows db). where_lang mt tid l r) \<longrightarrow>
            (\<exists>pre r post. translation_rows db = pre @ r # post \<and> where_lang mt tid l r
               \<and> (\<forall>x \<in> set pre. \<not> where_lang mt tid l x)
               \<and> translated db mt tid l iso3166 = (tr_title r, tr_overview r))"
  proof (rule impI)
    assume a: "(iso3166 = None \<or> iso3166 = Some []
             \<or> (\<exists>rg. iso3166 = Some rg
                    \<and> (\<forall>r \<in> set (translation_rows db). \<not> where_exact mt tid l rg r)))
            \<and> (\<exists>r \<in> set (translation_rows db). where_lang mt tid l r)"
    then have "\<exists>r \<in> set (translation_rows db). where_lang mt tid l r" by simp
    then obtain r where r: "fetchone (where_lang mt tid l) (translation_rows db) = Some r"
      using fetchone_exists [of "translation_rows db" "where_lang mt tid l"] by blast
    from fetchone_Some [OF r] obtain pre post where
      p: "where_lang mt tid l r" "translation_rows db = pre @ r # post"
         "\<forall>x \<in> set pre. \<not> where_lang mt tid l x" by blast
    have d: "iso3166 = None \<or> iso3166 = Some []
             \<or> (\<exists>rg. iso3166 = Some rg
                    \<and> (\<forall>r \<in> set (translation_rows db). \<not> where_exact mt tid l rg r))"
      using a by simp
    have n: "iso3166 = None \<or> iso3166 = Some []
           \<or> (\<exists>g. iso3166 = Some g
                 \<and> fetchone (where_exact mt tid l g) (translation_rows db) = None)"
      using d by (simp add: fetchone_None)
    have t: "translated db mt tid l iso3166 = (tr_title r, tr_overview r)"
      using translated_lang [OF n r] .
    show "\<exists>pre r post. translation_rows db = pre @ r # post \<and> where_lang mt tid l r
               \<and> (\<forall>x \<in> set pre. \<not> where_lang mt tid l x)
               \<and> translated db mt tid l iso3166 = (tr_title r, tr_overview r)"
      using p t by (intro exI [of _ pre] exI [of _ r] exI [of _ post]) simp
  qed
  have 3: "(\<forall>r \<in> set (translation_rows db). \<not> where_lang mt tid l r) \<longrightarrow>
            translated db mt tid l iso3166 = (None, None)"
  proof (rule impI)
    assume "\<forall>r \<in> set (translation_rows db). \<not> where_lang mt tid l r"
    then have "fetchone (where_lang mt tid l) (translation_rows db) = None"
      by (simp add: fetchone_None)
    then show "translated db mt tid l iso3166 = (None, None)" by (rule translated_none)
  qed
  have 4: "\<forall>t. fst (translated db mt tid l iso3166) = Some t \<and> t \<noteq> [] \<longrightarrow>
            card_name db mt tid l iso3166 base = strip t"
    by (simp add: card_name_def or_opt_def or_empty_def str_truthy_def split: prod.splits)
  have 5: "fst (translated db mt tid l iso3166) = None
            \<or> fst (translated db mt tid l iso3166) = Some [] \<longrightarrow>
            card_name db mt tid l iso3166 base = strip (or_empty base)"
    by (auto simp: card_name_def or_opt_def or_empty_def str_truthy_def split: prod.splits)
  have 6: "\<forall>t. snd (translated db mt tid l iso3166) = Some t \<and> t \<noteq> [] \<longrightarrow>
            title_description db mt tid l iso3166 base_over = strip t"
    by (simp add: title_description_def or_opt_def or_empty_def str_truthy_def split: prod.splits)
  have 7: "snd (translated db mt tid l iso3166) = None
            \<or> snd (translated db mt tid l iso3166) = Some [] \<longrightarrow>
            title_description db mt tid l iso3166 base_over = strip (or_empty base_over)"
    by (auto simp: title_description_def or_opt_def or_empty_def str_truthy_def split: prod.splits)
  show ?thesis using 1 2 3 4 5 6 7 by (intro conjI)
qed

theorem C4_translation_fallback_witness:
  "translated demo_store (asc ''movie'') 1 (asc ''de'') (Some (asc ''AT''))
     = (Some (asc ''Film AT''), None) \<and>
   translated demo_store (asc ''movie'') 1 (asc ''de'') (Some (asc ''CH''))
     = (Some (asc ''Der Film''), Some (asc ''Ein Film'')) \<and>
   translated demo_store (asc ''movie'') 1 (asc ''fr'') (Some (asc ''FR'')) = (None, None) \<and>
   card_name demo_store (asc ''movie'') 1 (asc ''de'') (Some (asc ''CH'')) (Some (asc ''The Film''))
     = asc ''Der Film'' \<and>
   card_name demo_store (asc ''movie'') 1 (asc ''fr'') (Some (asc ''FR'')) (Some (asc '' The Film ''))
     = asc ''The Film''"
proof -
  let ?mv = "asc ''movie''" and ?de = "asc ''de''"
  note defs = translation_rows_def demo_store_def demo_translations_def where_exact_def
    where_lang_def asc_def
  note c2 = conjunct2 [THEN conjunct1]
  note c3 = conjunct2 [THEN conjunct2, THEN conjunct1]
  note c4 = conjunct2 [THEN conjunct2, THEN conjunct2, THEN conjunct1]
  note c5 = conjunct2 [THEN conjunct2, THEN conjunct2, THEN conjunct2, THEN conjunct1]
  have A: "translated demo_store ?mv 1 ?de (Some (asc ''AT'')) = (Some (asc ''Film AT''), None)"
  proof -
    let ?p = "where_exact ?mv 1 ?de (asc ''AT'')"
    have pre: "Some (asc ''AT'') = Some (asc ''AT'') \<and> asc ''AT'' \<noteq> []
        \<and> (\<exists>r \<in> set (translation_rows demo_store). ?p r)"
      by (simp add: defs)
    from C4_translation_fallback [of "Some (asc ''AT'')" demo_store ?mv 1 ?de,
        THEN conjunct1, THEN spec, THEN mp, OF pre]
    obtain pre r post where r: "translation_rows demo_store = pre @ r # post" "?p r"
      "\<forall>x \<in> set pre. \<not> ?p x"
      "translated demo_store ?mv 1 ?de (Some (asc ''AT'')) = (tr_title r, tr_overview r)"
      by blast
    have "fetchone ?p (translation_rows demo_store) = Some r"
      unfolding r(1) using r(2,3) by (rule fetchone_first)
    moreover have "fetchone ?p (translation_rows demo_store) = Some (demo_translations ! 1)"
      by (simp add: fetchone_def defs)
    ultimately have "r = demo_translations ! 1" by simp
    then have "(tr_title r, tr_overview r) = (Some (asc ''Film AT''), None)"
      by (simp add: demo_translations_def)
    then show ?thesis using r(4) by simp
  qed
  have B: "translated demo_store ?mv 1 ?de (Some (asc ''CH''))
      = (Some (asc ''Der Film''), Some (asc ''Ein Film''))"
  proof -
    let ?p = "where_lang ?mv 1 ?de"
    have pre: "(Some (asc ''CH'') = None \<or> Some (asc ''CH'') = Some []
             \<or> (\<exists>rg. Some (asc ''CH'') = Some rg
                    \<and> (\<forall>r \<in> set (translation_rows demo_store). \<not> where_exact ?mv 1 ?de rg r)))
            \<and> (\<exists>r \<in> set (translation_rows demo_store). ?p r)"
      by (simp add: defs)
    from C4_translation_fallback [of "Some (asc ''CH'')" demo_store ?mv 1 ?de,
        THEN c2, THEN mp, OF pre]
    obtain pre r post where r: "translation_rows demo_store = pre @ r # post" "?p r"
      "\<forall>x \<in> set pre. \<not> ?p x"
      "translated demo_store ?mv 1 ?de (Some (asc ''CH'')) = (tr_title r, tr_overview r)"
      by blast
    have "fetchone ?p (translation_rows demo_store) = Some r"
      unfolding r(1) using r(2,3) by (rule fetchone_first)
    moreover have "fetchone ?p (translation_rows demo_store) = Some (demo_translations ! 0)"
      by (simp add: fetchone_def defs)
    ultimately have "r = demo_translations ! 0" by simp
    then have "(tr_title r, tr_overview r) = (Some (asc ''Der Film''), Some (asc ''Ein Film''))"
      by (simp add: demo_translations_def)
    then show ?thesis using r(4) by simp
  qed
  have pre3: "\<forall>r \<in> set (translation_rows demo_store). \<not> where_lang ?mv 1 (asc ''fr'') r"
    by (simp add: defs)
  have C: "translated demo_store ?mv 1 (asc ''fr'') (Some (asc ''FR'')) = (None, None)"
    using C4_translation_fallback [of "Some (asc ''FR'')" demo_store ?mv 1 "asc ''fr''",
        THEN c3, THEN mp, OF pre3] .
  have D: "card_name demo_store ?mv 1 ?de (Some (asc ''CH'')) (Some (asc ''The Film''))
      = asc ''Der Film''"
  proof -
    have f: "fst (translated demo_store ?mv 1 ?de (Some (asc ''CH''))) = Some (asc ''Der Film'')
        \<and> asc ''Der Film'' \<noteq> []"
      by (simp add: B) (simp add: asc_def)
    have "card_name demo_store ?mv 1 ?de (Some (asc ''CH'')) (Some (asc ''The Film''))
        = strip (asc ''Der Film'')"
      using C4_translation_fallback [of "Some (asc ''CH'')" demo_store ?mv 1 ?de "Some (asc ''The Film'')",
        THEN c4, THEN spec, THEN mp, OF f] .
    moreover have "strip (asc ''Der Film'') = asc ''Der Film''"
      by (simp add: strip_def is_space_def asc_def)
    ultimately show ?thesis by simp
  qed
  have E: "card_name demo_store ?mv 1 (asc ''fr'') (Some (asc ''FR'')) (Some (asc '' The Film ''))
      = asc ''The Film''"
  proof -
    have f: "fst (translated demo_store ?mv 1 (asc ''fr'') (Some (asc ''FR''))) = None
        \<or> fst (translated demo_store ?mv 1 (asc ''fr'') (Some (asc ''FR''))) = Some []"
      by (simp add: C)
    have "card_name demo_store ?mv 1 (asc ''fr'') (Some (asc ''FR'')) (Some (asc '' The Film ''))
        = strip (or_empty (Some (asc '' The Film '')))"
      using C4_translation_fallback [of "Some (asc ''FR'')" demo_store ?mv 1 "asc ''fr''"
          "Some (asc '' The Film '')", THEN c5, THEN mp, OF f] .
    moreover have "strip (or_empty (Some (asc '' The Film ''))) = asc ''The Film''"
      by (simp add: or_empty_def strip_def is_space_def asc_def)
    ultimately show ?thesis by simp
  qed
  show ?thesis by (intro conjI A B C D E)
qed

subsection \<open>The Provider client\<close>




subsection \<open>The similar-titles lookup\<close>

lemma tmdb_similar_other_key:
  assumes "(kind, tid, lang_tag iso639 iso3166) \<noteq> k"
  shows "similar_cache (snd (tmdb_similar cards_of enrich tmdb_key provider s kind tid iso639 iso3166 now)) k
           = similar_cache s k"
  using assms
  by (auto simp: tmdb_similar_def tmdb_open_def Let_def
      split: option.splits open_outcome.splits response_body.splits prod.splits)

lemma tmdb_similar_cached_empty:
  assumes "similar_cache s (kind, tid, lang_tag iso639 iso3166) = Some (t0, [])"
    and "now - t0 < similar_ttl_s"
  shows "tmdb_similar cards_of enrich tmdb_key provider s kind tid iso639 iso3166 now = (Some [], s)"
  using assms by (simp add: tmdb_similar_def Let_def)

lemma tmdb_similar_failure:
  assumes "str_truthy tmdb_key"
    and "case similar_cache s (kind, tid, lang_tag iso639 iso3166) of
           None \<Rightarrow> True | Some (ts, cached) \<Rightarrow> \<not> now - ts < similar_ttl_s"
    and "provider (sent s) = OpenRaises
         \<or> (\<exists>r. provider (sent s) = Opened r
                \<and> (status r \<noteq> Some 200 \<or> body r = Unreadable
                    \<or> (\<exists>d. body r = Parsed d \<and> cards_of d = None)))"
  shows "tmdb_similar cards_of enrich tmdb_key provider s kind tid iso639 iso3166 now
           = (Some [], s\<lparr>similar_cache := (similar_cache s)((kind, tid, lang_tag iso639 iso3166) \<mapsto> (now, [])),
                        sent := sent s + 1\<rparr>)"
proof -
  have c: "\<not> (case similar_cache s (kind, tid, lang_tag iso639 iso3166) of
                None \<Rightarrow> False | Some (t0, cached) \<Rightarrow> now - t0 < similar_ttl_s)"
    using assms(2) by (auto split: option.splits)
  from assms(3) show ?thesis
  proof
    assume "provider (sent s) = OpenRaises"
    then show ?thesis using assms(1) c
      by (simp add: tmdb_similar_def tmdb_open_def Let_def)
  next
    assume "\<exists>r. provider (sent s) = Opened r
                \<and> (status r \<noteq> Some 200 \<or> body r = Unreadable
                    \<or> (\<exists>d. body r = Parsed d \<and> cards_of d = None))"
    then obtain r where r: "provider (sent s) = Opened r"
      "status r \<noteq> Some 200 \<or> body r = Unreadable \<or> (\<exists>d. body r = Parsed d \<and> cards_of d = None)"
      by blast
    have "(if status r = Some 200
           then (case body r of
                   Unreadable \<Rightarrow> []
                 | Parsed data \<Rightarrow> (case cards_of data of None \<Rightarrow> [] | Some cs \<Rightarrow> cs))
           else []) = []"
      using r(2) by (auto split: response_body.splits)
    then show ?thesis using assms(1) c r(1)
      by (simp add: tmdb_similar_def tmdb_open_def Let_def)
  qed
qed

lemma similar_seq_cached_empty:
  assumes "similar_cache s k = Some (t0, [])"
    and "\<forall>c \<in> set calls. call_key c = k \<longrightarrow> call_now c - t0 < similar_ttl_s"
  shows "\<forall>x \<in> set (similar_seq cards_of enrich tmdb_key provider s calls).
           call_key (fst x) = k \<longrightarrow> fst (snd x) = Some [] \<and> snd (snd (snd x)) = fst (snd (snd x))"
  using assms
proof (induction calls arbitrary: s)
  case Nil
  then show ?case by simp
next
  case (Cons c calls)
  obtain kind tid iso639 iso3166 now where c: "c = (kind, tid, iso639, iso3166, now)"
    by (cases c) auto
  obtain res s' where t: "tmdb_similar cards_of enrich tmdb_key provider s kind tid iso639 iso3166 now = (res, s')"
    by (cases "tmdb_similar cards_of enrich tmdb_key provider s kind tid iso639 iso3166 now") auto
  have rest: "\<forall>c \<in> set calls. call_key c = k \<longrightarrow> call_now c - t0 < similar_ttl_s"
    using Cons.prems(2) by simp
  have seq: "similar_seq cards_of enrich tmdb_key provider s (c # calls)
      = (c, res, sent s, sent s') # similar_seq cards_of enrich tmdb_key provider s' calls"
    using t by (simp add: c)
  show ?case
  proof (cases "call_key c = k")
    case True
    then have k: "(kind, tid, lang_tag iso639 iso3166) = k" by (simp add: c)
    have "now - t0 < similar_ttl_s" using Cons.prems(2) True by (simp add: c)
    then have "tmdb_similar cards_of enrich tmdb_key provider s kind tid iso639 iso3166 now = (Some [], s)"
      using Cons.prems(1) k by (simp add: tmdb_similar_cached_empty)
    then have e: "res = Some []" "s' = s" using t by simp_all
    have "\<forall>x \<in> set (similar_seq cards_of enrich tmdb_key provider s' calls).
           call_key (fst x) = k \<longrightarrow> fst (snd x) = Some [] \<and> snd (snd (snd x)) = fst (snd (snd x))"
      using Cons.IH [of s'] Cons.prems(1) rest e(2) by simp
    then show ?thesis unfolding seq using e by simp
  next
    case False
    then have "(kind, tid, lang_tag iso639 iso3166) \<noteq> k" by (simp add: c)
    then have "similar_cache s' k = similar_cache s k"
      using tmdb_similar_other_key [of kind tid iso639 iso3166 k cards_of enrich tmdb_key provider s now] t
      by simp
    then have "similar_cache s' k = Some (t0, [])" using Cons.prems(1) by simp
    then have "\<forall>x \<in> set (similar_seq cards_of enrich tmdb_key provider s' calls).
           call_key (fst x) = k \<longrightarrow> fst (snd x) = Some [] \<and> snd (snd (snd x)) = fst (snd (snd x))"
      using Cons.IH [of s'] rest by simp
    then show ?thesis unfolding seq using False by simp
  qed
qed

text \<open>
  Claim C10. A lookup for \<open>(kind, tid, iso639, iso3166)\<close> at time \<open>t0\<close>, with
  the API key set and no fresh cache entry for its key, whose Provider call raises, or
  answers with a status other than 200, or answers 200 with a body that cannot be read
  or from which building the cards raises: it returns the empty list, has sent one
  request, and has stored \<open>(t0, [])\<close> in the cache under
  \<open>(kind, tid, lang_tag)\<close>. In every sequence of lookups that follows, in which
  those for the same key come less than the TTL of 3 days after \<open>t0\<close>, each lookup
  for that key returns the empty list and sends no request.
\<close>

theorem C10_similar_negative_caching:
  assumes "str_truthy tmdb_key"
    and "k = (kind, tid, lang_tag iso639 iso3166)"
    and "case similar_cache s k of None \<Rightarrow> True | Some (ts, cached) \<Rightarrow> \<not> t0 - ts < similar_ttl_s"
    and "provider (sent s) = OpenRaises
         \<or> (\<exists>r. provider (sent s) = Opened r
                \<and> (status r \<noteq> Some 200 \<or> body r = Unreadable
                    \<or> (\<exists>d. body r = Parsed d \<and> cards_of d = None)))"
    and "(res, s1) = tmdb_similar cards_of enrich tmdb_key provider s kind tid iso639 iso3166 t0"
    and "\<forall>c \<in> set calls. call_key c = k \<longrightarrow> call_now c - t0 < similar_ttl_s"
  shows "res = Some [] \<and> sent s1 = sent s + 1 \<and> similar_cache s1 k = Some (t0, [])
    \<and> (\<forall>(c, r, n, n') \<in> set (similar_seq cards_of enrich tmdb_key provider s1 calls).
          call_key c = k \<longrightarrow> r = Some [] \<and> n' = n)"
proof -
  have f: "tmdb_similar cards_of enrich tmdb_key provider s kind tid iso639 iso3166 t0
      = (Some [], s\<lparr>similar_cache := (similar_cache s)(k \<mapsto> (t0, [])), sent := sent s + 1\<rparr>)"
    unfolding assms(2)
    using assms(1) assms(3) [unfolded assms(2)] assms(4) by (rule tmdb_similar_failure)
  have r: "res = Some []"
    and s1: "s1 = s\<lparr>similar_cache := (similar_cache s)(k \<mapsto> (t0, [])), sent := sent s + 1\<rparr>"
    using assms(5) f by simp_all
  have c: "similar_cache s1 k = Some (t0, [])" by (simp add: s1)
  have n: "sent s1 = sent s + 1" by (simp add: s1)
  have "\<forall>x \<in> set (similar_seq cards_of enrich tmdb_key provider s1 calls).
           call_key (fst x) = k \<longrightarrow> fst (snd x) = Some [] \<and> snd (snd (snd x)) = fst (snd (snd x))"
    using c assms(6) by (rule similar_seq_cached_empty)
  then have q: "\<forall>(c, r, n, n') \<in> set (similar_seq cards_of enrich tmdb_key provider s1 calls).
          call_key c = k \<longrightarrow> r = Some [] \<and> n' = n"
    by (simp add: case_prod_beta)
  show ?thesis using r n c q by (intro conjI)
qed

theorem C10_similar_negative_caching_witness:
  "fst (tmdb_similar (\<lambda>d. None) Some (Some (asc ''key'')) down_provider fresh_similar
          (asc ''movie'') 603 (asc ''en'') None 100) = Some [] \<and>
   sent (snd (tmdb_similar (\<lambda>d. None) Some (Some (asc ''key'')) down_provider fresh_similar
          (asc ''movie'') 603 (asc ''en'') None 100)) = 1 \<and>
   similar_cache (snd (tmdb_similar (\<lambda>d. None) Some (Some (asc ''key'')) down_provider fresh_similar
          (asc ''movie'') 603 (asc ''en'') None 100)) (asc ''movie'', 603, asc ''en'')
     = Some (100, []) \<and>
   fst (snd (hd (similar_seq (\<lambda>d. None) Some (Some (asc ''key'')) down_provider
     (snd (tmdb_similar (\<lambda>d. None) Some (Some (asc ''key'')) down_provider fresh_similar
          (asc ''movie'') 603 (asc ''en'') None 100))
     [(asc ''movie'', 603, asc ''en'', None, 5000)]))) = Some [] \<and>
   snd (snd (snd (hd (similar_seq (\<lambda>d. None) Some (Some (asc ''key'')) down_provider
     (snd (tmdb_similar (\<lambda>d. None) Some (Some (asc ''key'')) down_provider fresh_similar
          (asc ''movie'') 603 (asc ''en'') None 100))
     [(asc ''movie'', 603, asc ''en'', None, 5000)])))) = 1"
proof -
  let ?key = "Some (asc ''key'')"
  let ?X = "tmdb_similar (\<lambda>d. None) Some ?key down_provider fresh_similar
          (asc ''movie'') 603 (asc ''en'') None 100"
  let ?k = "(asc ''movie'', 603, asc ''en'')"
  let ?calls = "[(asc ''movie'', 603, asc ''en'', None, 5000)] :: similar_call list"
  let ?seq = "similar_seq (\<lambda>d. None) Some ?key down_provider (snd ?X) ?calls"
  have h1: "str_truthy ?key" by (simp add: str_truthy_def asc_def)
  have h2: "?k = (asc ''movie'', 603, lang_tag (asc ''en'') None)" by (simp add: lang_tag_def)
  have h3: "case similar_cache fresh_similar ?k of
              None \<Rightarrow> True | Some (ts, cached) \<Rightarrow> \<not> 100 - ts < similar_ttl_s"
    by (simp add: fresh_similar_def)
  have h4: "down_provider (sent fresh_similar) = OpenRaises
         \<or> (\<exists>r. down_provider (sent fresh_similar) = Opened r
                \<and> (status r \<noteq> Some 200 \<or> body r = Unreadable
                    \<or> (\<exists>d. body r = Parsed d \<and> (\<lambda>d. None :: json list option) d = None)))"
    by (simp add: down_provider_def)
  have h5: "(fst ?X, snd ?X) = ?X" by simp
  have h6: "\<forall>c \<in> set ?calls. call_key c = ?k \<longrightarrow> call_now c - 100 < similar_ttl_s"
    by (simp add: similar_ttl_s_def)
  note T = C10_similar_negative_caching [where cards_of = "\<lambda>d. None" and enrich = Some
      and provider = down_provider and calls = ?calls, OF h1 h2 h3 h4 h5 h6]
  have a: "fst ?X = Some []" using T by (rule conjunct1)
  have b: "sent (snd ?X) = sent fresh_similar + 1" using T [THEN conjunct2] by (rule conjunct1)
  have c: "similar_cache (snd ?X) ?k = Some (100, [])"
    using T [THEN conjunct2, THEN conjunct2] by (rule conjunct1)
  have q: "\<forall>(c, r, n, n') \<in> set ?seq. call_key c = ?k \<longrightarrow> r = Some [] \<and> n' = n"
    using T [THEN conjunct2, THEN conjunct2] by (rule conjunct2)
  have ne: "?seq \<noteq> []" by (simp add: case_prod_beta)
  then have m: "hd ?seq \<in> set ?seq" by (rule hd_in_set)
  have hk: "call_key (fst (hd ?seq)) = ?k" by (simp add: case_prod_beta lang_tag_def)
  have hn: "fst (snd (snd (hd ?seq))) = sent (snd ?X)" by (simp add: case_prod_beta)
  have "call_key (fst (hd ?seq)) = ?k \<longrightarrow>
      fst (snd (hd ?seq)) = Some [] \<and> snd (snd (snd (hd ?seq))) = fst (snd (snd (hd ?seq)))"
    using q [THEN bspec, OF m] by (simp add: case_prod_beta)
  then have d: "fst (snd (hd ?seq)) = Some []"
    and e: "snd (snd (snd (hd ?seq))) = fst (snd (snd (hd ?seq)))"
    using hk by simp_all
  have b': "sent (snd ?X) = 1" using b by (simp add: fresh_similar_def)
  have e': "snd (snd (snd (hd ?seq))) = 1" using e hn b' by simp
  show ?thesis by (intro conjI a b' c d e')
qed

subsection \<open>The backfill scheduler\<close>

lemma spaced_snoc:
  "spaced (xs @ [x]) \<longleftrightarrow>
     spaced xs \<and> (\<forall>y \<in> set xs. fst y = fst x \<longrightarrow> snd x - snd y \<ge> backfill_ttl_s)"
proof
  assume a: "spaced (xs @ [x])"
  have 1: "spaced xs"
    unfolding spaced_def
  proof (intro allI impI)
    fix i j assume h: "i < j \<and> j < length xs \<and> fst (xs ! i) = fst (xs ! j)"
    then have "i < j \<and> j < length (xs @ [x]) \<and> fst ((xs @ [x]) ! i) = fst ((xs @ [x]) ! j)"
      by (simp add: nth_append)
    then have "snd ((xs @ [x]) ! j) - snd ((xs @ [x]) ! i) \<ge> backfill_ttl_s"
      using a unfolding spaced_def by blast
    then show "snd (xs ! j) - snd (xs ! i) \<ge> backfill_ttl_s"
      using h by (simp add: nth_append)
  qed
  have 2: "\<forall>y \<in> set xs. fst y = fst x \<longrightarrow> snd x - snd y \<ge> backfill_ttl_s"
  proof (intro ballI impI)
    fix y assume y: "y \<in> set xs" and e: "fst y = fst x"
    then obtain i where i: "i < length xs" "xs ! i = y" by (auto simp: in_set_conv_nth)
    have "i < length xs \<and> length xs < length (xs @ [x])
        \<and> fst ((xs @ [x]) ! i) = fst ((xs @ [x]) ! length xs)"
      using i e by (simp add: nth_append)
    then have "snd ((xs @ [x]) ! length xs) - snd ((xs @ [x]) ! i) \<ge> backfill_ttl_s"
      using a unfolding spaced_def by blast
    then show "snd x - snd y \<ge> backfill_ttl_s" using i by (simp add: nth_append)
  qed
  show "spaced xs \<and> (\<forall>y \<in> set xs. fst y = fst x \<longrightarrow> snd x - snd y \<ge> backfill_ttl_s)"
    using 1 2 by simp
next
  assume a: "spaced xs \<and> (\<forall>y \<in> set xs. fst y = fst x \<longrightarrow> snd x - snd y \<ge> backfill_ttl_s)"
  show "spaced (xs @ [x])"
    unfolding spaced_def
  proof (intro allI impI)
    fix i j
    assume h: "i < j \<and> j < length (xs @ [x]) \<and> fst ((xs @ [x]) ! i) = fst ((xs @ [x]) ! j)"
    show "snd ((xs @ [x]) ! j) - snd ((xs @ [x]) ! i) \<ge> backfill_ttl_s"
    proof (cases "j < length xs")
      case True
      have il: "i < length xs" using h True by linarith
      have "i < j \<and> j < length xs \<and> fst (xs ! i) = fst (xs ! j)"
        using h True il by (simp add: nth_append)
      then have "snd (xs ! j) - snd (xs ! i) \<ge> backfill_ttl_s"
        using a unfolding spaced_def by blast
      then show ?thesis using True il by (simp add: nth_append)
    next
      case False
      then have j: "j = length xs" using h by simp
      then have i: "i < length xs" using h by simp
      then have m: "xs ! i \<in> set xs" by simp
      have "fst (xs ! i) = fst x" using h i j by (simp add: nth_append)
      then have "snd x - snd (xs ! i) \<ge> backfill_ttl_s" using a m by blast
      then show ?thesis using i j by (simp add: nth_append)
    qed
  qed
qed

lemma schedule_refused:
  "backfill_refused tmdb_key media_type tid \<Longrightarrow>
     schedule_backfill tmdb_key queue_limit s media_type tid iso639 iso3166 full now = s"
  by (simp add: schedule_backfill_def)

lemma schedule_recent:
  assumes "backfill_recent s (media_type, tid, lang_tag iso639 iso3166, if full then 1 else 0) = Some t0"
    and "t0 \<noteq> 0" and "now - t0 < backfill_ttl_s"
  shows "schedule_backfill tmdb_key queue_limit s media_type tid iso639 iso3166 full now = s"
  using assms by (simp add: schedule_backfill_def Let_def)

lemma schedule_proceeds:
  assumes "\<not> backfill_refused tmdb_key media_type tid"
    and "k = (media_type, tid, lang_tag iso639 iso3166, if full then 1 else 0)"
    and "backfill_recent s k = None
         \<or> (\<exists>t0. backfill_recent s k = Some t0 \<and> \<not> (t0 \<noteq> 0 \<and> now - t0 < backfill_ttl_s))"
  shows "schedule_backfill tmdb_key queue_limit s media_type tid iso639 iso3166 full now =
           (if int (length (backfill_inflight s)) \<ge> queue_limit \<or> k \<in> set (backfill_inflight s)
            then s\<lparr>backfill_recent := (backfill_recent s)(k \<mapsto> now)\<rparr>
            else s\<lparr>backfill_recent := (backfill_recent s)(k \<mapsto> now),
                   backfill_inflight := backfill_inflight s @ [k],
                   submitted := submitted s @ [(k, now)]\<rparr>)"
proof -
  have "\<not> (case backfill_recent s k of
             None \<Rightarrow> False | Some t0 \<Rightarrow> t0 \<noteq> 0 \<and> now - t0 < backfill_ttl_s)"
    using assms(3) by (auto split: option.splits)
  then show ?thesis
    using assms(1) unfolding assms(2) by (simp add: schedule_backfill_def Let_def)
qed

lemma schedule_inv:
  assumes "backfill_inv tmdb_key s" and "0 < now"
  shows "backfill_inv tmdb_key
           (schedule_backfill tmdb_key queue_limit s media_type tid iso639 iso3166 full now)"
proof -
  define k where "k = (media_type, tid, lang_tag iso639 iso3166, if full then (1::int) else 0)"
  have A: "\<forall>k ts. backfill_recent s k = Some ts \<longrightarrow>
        ts \<noteq> 0 \<and> \<not> backfill_refused tmdb_key (fst k) (fst (snd k))"
    and B: "\<forall>x \<in> set (submitted s). \<exists>ts. backfill_recent s (fst x) = Some ts
            \<and> (ts = snd x \<or> ts - snd x \<ge> backfill_ttl_s)"
    and C: "spaced (submitted s)"
    using assms(1) by (simp_all add: backfill_inv_def)
  show ?thesis
  proof (cases "backfill_refused tmdb_key media_type tid")
    case True
    then show ?thesis using assms(1) by (simp add: schedule_refused)
  next
    case nr: False
    show ?thesis
    proof (cases "\<exists>t0. backfill_recent s k = Some t0 \<and> t0 \<noteq> 0 \<and> now - t0 < backfill_ttl_s")
      case True
      then obtain t0 where "backfill_recent s k = Some t0" "t0 \<noteq> 0" "now - t0 < backfill_ttl_s"
        by blast
      then have "schedule_backfill tmdb_key queue_limit s media_type tid iso639 iso3166 full now = s"
        unfolding k_def by (rule schedule_recent)
      then show ?thesis using assms(1) by simp
    next
      case False
      then have pr: "backfill_recent s k = None
         \<or> (\<exists>t0. backfill_recent s k = Some t0 \<and> \<not> (t0 \<noteq> 0 \<and> now - t0 < backfill_ttl_s))"
        by (cases "backfill_recent s k") auto
      note E = schedule_proceeds [OF nr k_def pr, of queue_limit]
      have far: "\<forall>y \<in> set (submitted s). fst y = k \<longrightarrow> now - snd y \<ge> backfill_ttl_s"
      proof (intro ballI impI)
        fix y assume y: "y \<in> set (submitted s)" and e: "fst y = k"
        obtain ts where ts: "backfill_recent s k = Some ts" "ts = snd y \<or> ts - snd y \<ge> backfill_ttl_s"
          using B y e by blast
        have "ts \<noteq> 0" using A ts(1) by blast
        then have "\<not> now - ts < backfill_ttl_s" using False ts(1) by blast
        then show "now - snd y \<ge> backfill_ttl_s"
          using ts(2) by (auto simp: backfill_ttl_s_def)
      qed
      have A': "\<forall>k' ts. ((backfill_recent s)(k \<mapsto> now)) k' = Some ts \<longrightarrow>
        ts \<noteq> 0 \<and> \<not> backfill_refused tmdb_key (fst k') (fst (snd k'))"
        using A nr assms(2) by (auto simp: k_def)
      have B': "\<forall>x \<in> set (submitted s). \<exists>ts. ((backfill_recent s)(k \<mapsto> now)) (fst x) = Some ts
            \<and> (ts = snd x \<or> ts - snd x \<ge> backfill_ttl_s)"
      proof
        fix x assume x: "x \<in> set (submitted s)"
        show "\<exists>ts. ((backfill_recent s)(k \<mapsto> now)) (fst x) = Some ts
            \<and> (ts = snd x \<or> ts - snd x \<ge> backfill_ttl_s)"
        proof (cases "fst x = k")
          case True
          then have "now - snd x \<ge> backfill_ttl_s" using far x by blast
          then show ?thesis using True by simp
        next
          case False
          then show ?thesis using B x by simp
        qed
      qed
      show ?thesis
      proof (cases "int (length (backfill_inflight s)) \<ge> queue_limit \<or> k \<in> set (backfill_inflight s)")
        case True
        then have "schedule_backfill tmdb_key queue_limit s media_type tid iso639 iso3166 full now
            = s\<lparr>backfill_recent := (backfill_recent s)(k \<mapsto> now)\<rparr>"
          using E by simp
        then show ?thesis using A' B' C by (simp add: backfill_inv_def)
      next
        case False
        then have e: "schedule_backfill tmdb_key queue_limit s media_type tid iso639 iso3166 full now
            = s\<lparr>backfill_recent := (backfill_recent s)(k \<mapsto> now),
                   backfill_inflight := backfill_inflight s @ [k],
                   submitted := submitted s @ [(k, now)]\<rparr>"
          using E by simp
        have C': "spaced (submitted s @ [(k, now)])"
          using C far by (simp add: spaced_snoc)
        have B'': "\<forall>x \<in> set (submitted s @ [(k, now)]).
            \<exists>ts. ((backfill_recent s)(k \<mapsto> now)) (fst x) = Some ts
            \<and> (ts = snd x \<or> ts - snd x \<ge> backfill_ttl_s)"
          using B' by simp
        show ?thesis unfolding e using A' B'' C' by (simp add: backfill_inv_def)
      qed
    qed
  qed
qed

lemma step_inv:
  assumes "backfill_inv tmdb_key s" and "clock_positive e"
  shows "backfill_inv tmdb_key (backfill_step tmdb_key queue_limit s e)"
proof (cases e)
  case (Schedule media_type tid iso639 iso3166 full now)
  then show ?thesis using assms schedule_inv by simp
next
  case (TaskEnds k)
  then show ?thesis using assms(1) by (simp add: backfill_inv_def)
qed

lemma run_inv:
  assumes "backfill_inv tmdb_key s" and "\<forall>e \<in> set events. clock_positive e"
  shows "backfill_inv tmdb_key (backfill_run tmdb_key queue_limit s events)"
  using assms
proof (induction events arbitrary: s)
  case Nil
  then show ?case by simp
next
  case (Cons e es)
  have "backfill_inv tmdb_key (backfill_step tmdb_key queue_limit s e)"
    using Cons.prems by (simp add: step_inv)
  then show ?case using Cons.IH Cons.prems(2) by simp
qed

lemma init_inv: "backfill_inv tmdb_key init_backfill"
  by (simp add: backfill_inv_def init_backfill_def spaced_def)

text \<open>
  Claim C1. Let \<open>s\<close> be a state the scheduler reaches from the start by calls
  (with clock readings after the epoch) and ends of tasks, and take a call with key
  \<open>k = (media_type, tid, lang_tag, full)\<close> at time \<open>now\<close>. If \<open>recent k\<close>
  is a time \<open>t0\<close> with \<open>now - t0 < TTL\<close> (10 minutes), the call changes nothing:
  it submits no task. If \<open>now - t0 < TTL\<close> does not hold, or if the key has no
  recorded time and passes the guard, the call records \<open>recent k = now\<close>, and it
  submits a task, adding \<open>k\<close> to \<open>inflight\<close>, exactly when \<open>inflight\<close> has
  fewer members than the queue limit and does not contain \<open>k\<close>. A call refused by
  the guard changes nothing, and its key has no recorded time. Any two tasks submitted
  for one key are at least the TTL apart.
\<close>

theorem C1_backfill_dedup:
  assumes "\<forall>e \<in> set events. clock_positive e"
    and "s = backfill_run tmdb_key queue_limit init_backfill events"
    and "k = (media_type, tid, lang_tag iso639 iso3166, if full then 1 else 0)"
    and "s' = schedule_backfill tmdb_key queue_limit s media_type tid iso639 iso3166 full now"
  shows "(\<forall>t0. backfill_recent s k = Some t0 \<and> now - t0 < backfill_ttl_s \<longrightarrow> s' = s)
    \<and> ((\<exists>t0. backfill_recent s k = Some t0 \<and> \<not> now - t0 < backfill_ttl_s)
         \<or> (backfill_recent s k = None \<and> \<not> backfill_refused tmdb_key media_type tid) \<longrightarrow>
        backfill_recent s' k = Some now
        \<and> (int (length (backfill_inflight s)) < queue_limit \<and> k \<notin> set (backfill_inflight s) \<longrightarrow>
             submitted s' = submitted s @ [(k, now)]
             \<and> backfill_inflight s' = backfill_inflight s @ [k])
        \<and> (\<not> (int (length (backfill_inflight s)) < queue_limit \<and> k \<notin> set (backfill_inflight s)) \<longrightarrow>
             submitted s' = submitted s \<and> backfill_inflight s' = backfill_inflight s))
    \<and> (backfill_refused tmdb_key media_type tid \<longrightarrow> s' = s \<and> backfill_recent s k = None)
    \<and> (\<forall>i j. i < j \<and> j < length (submitted s) \<and> fst (submitted s ! i) = fst (submitted s ! j) \<longrightarrow>
          snd (submitted s ! j) - snd (submitted s ! i) \<ge> backfill_ttl_s)"
proof -
  have inv: "backfill_inv tmdb_key s"
    unfolding assms(2) using init_inv assms(1) by (rule run_inv)
  have A: "\<forall>k ts. backfill_recent s k = Some ts \<longrightarrow>
        ts \<noteq> 0 \<and> \<not> backfill_refused tmdb_key (fst k) (fst (snd k))"
    and C: "spaced (submitted s)"
    using inv by (simp_all add: backfill_inv_def)
  have kk: "fst k = media_type" "fst (snd k) = tid" by (simp_all add: assms(3))
  have 1: "\<forall>t0. backfill_recent s k = Some t0 \<and> now - t0 < backfill_ttl_s \<longrightarrow> s' = s"
  proof (intro allI impI)
    fix t0 assume a: "backfill_recent s k = Some t0 \<and> now - t0 < backfill_ttl_s"
    then have r: "backfill_recent s k = Some t0" and l: "now - t0 < backfill_ttl_s" by simp_all
    have z: "t0 \<noteq> 0" using A r by blast
    show "s' = s"
      unfolding assms(4) using r [unfolded assms(3)] z l by (rule schedule_recent)
  qed
  have 2: "(\<exists>t0. backfill_recent s k = Some t0 \<and> \<not> now - t0 < backfill_ttl_s)
         \<or> (backfill_recent s k = None \<and> \<not> backfill_refused tmdb_key media_type tid) \<longrightarrow>
        backfill_recent s' k = Some now
        \<and> (int (length (backfill_inflight s)) < queue_limit \<and> k \<notin> set (backfill_inflight s) \<longrightarrow>
             submitted s' = submitted s @ [(k, now)]
             \<and> backfill_inflight s' = backfill_inflight s @ [k])
        \<and> (\<not> (int (length (backfill_inflight s)) < queue_limit \<and> k \<notin> set (backfill_inflight s)) \<longrightarrow>
             submitted s' = submitted s \<and> backfill_inflight s' = backfill_inflight s)"
  proof (rule impI)
    assume a: "(\<exists>t0. backfill_recent s k = Some t0 \<and> \<not> now - t0 < backfill_ttl_s)
         \<or> (backfill_recent s k = None \<and> \<not> backfill_refused tmdb_key media_type tid)"
    have nr: "\<not> backfill_refused tmdb_key media_type tid"
    proof (cases "backfill_recent s k")
      case None
      then show ?thesis using a by simp
    next
      case (Some ts)
      have "\<not> backfill_refused tmdb_key (fst k) (fst (snd k))"
        using A [rule_format, OF Some] by simp
      then show ?thesis by (simp add: kk)
    qed
    have pr: "backfill_recent s k = None
         \<or> (\<exists>t0. backfill_recent s k = Some t0 \<and> \<not> (t0 \<noteq> 0 \<and> now - t0 < backfill_ttl_s))"
      using a by auto
    note E = schedule_proceeds [OF nr assms(3) pr, of queue_limit]
    show "backfill_recent s' k = Some now
        \<and> (int (length (backfill_inflight s)) < queue_limit \<and> k \<notin> set (backfill_inflight s) \<longrightarrow>
             submitted s' = submitted s @ [(k, now)]
             \<and> backfill_inflight s' = backfill_inflight s @ [k])
        \<and> (\<not> (int (length (backfill_inflight s)) < queue_limit \<and> k \<notin> set (backfill_inflight s)) \<longrightarrow>
             submitted s' = submitted s \<and> backfill_inflight s' = backfill_inflight s)"
      unfolding assms(4) E by auto
  qed
  have 3: "backfill_refused tmdb_key media_type tid \<longrightarrow> s' = s \<and> backfill_recent s k = None"
  proof (rule impI)
    assume r: "backfill_refused tmdb_key media_type tid"
    have "s' = s" unfolding assms(4) using r by (rule schedule_refused)
    moreover have "backfill_recent s k = None"
    proof (cases "backfill_recent s k")
      case None
      then show ?thesis .
    next
      case (Some ts)
      have "\<not> backfill_refused tmdb_key (fst k) (fst (snd k))"
        using A [rule_format, OF Some] by simp
      then have False using r by (simp add: kk)
      then show ?thesis by simp
    qed
    ultimately show "s' = s \<and> backfill_recent s k = None" by simp
  qed
  have 4: "\<forall>i j. i < j \<and> j < length (submitted s) \<and> fst (submitted s ! i) = fst (submitted s ! j) \<longrightarrow>
          snd (submitted s ! j) - snd (submitted s ! i) \<ge> backfill_ttl_s"
    using C unfolding spaced_def .
  show ?thesis using 1 2 3 4 by (intro conjI)
qed

theorem C1_backfill_dedup_witness:
  "schedule_backfill (Some (asc ''key'')) 2000
     (backfill_run (Some (asc ''key'')) 2000 init_backfill
        [Schedule (asc ''movie'') 603 (asc ''en'') None False 1000])
     (asc ''movie'') 603 (asc ''en'') None False 1300
   = backfill_run (Some (asc ''key'')) 2000 init_backfill
        [Schedule (asc ''movie'') 603 (asc ''en'') None False 1000] \<and>
   submitted (schedule_backfill (Some (asc ''key'')) 2000
     (backfill_run (Some (asc ''key'')) 2000 init_backfill
        [Schedule (asc ''movie'') 603 (asc ''en'') None False 1000,
         TaskEnds (asc ''movie'', 603, asc ''en'', 0)])
     (asc ''movie'') 603 (asc ''en'') None False 1700)
   = [((asc ''movie'', 603, asc ''en'', 0), 1000), ((asc ''movie'', 603, asc ''en'', 0), 1700)] \<and>
   submitted (schedule_backfill (Some (asc ''key'')) 2000
     (backfill_run (Some (asc ''key'')) 2000 init_backfill
        [Schedule (asc ''movie'') 603 (asc ''en'') None False 1000])
     (asc ''movie'') 603 (asc ''en'') None False 1700)
   = [((asc ''movie'', 603, asc ''en'', 0), 1000)] \<and>
   schedule_backfill (Some (asc ''key'')) 2000 init_backfill
     (asc ''person'') 603 (asc ''en'') None False 1000 = init_backfill"
proof -
  let ?key = "Some (asc ''key'')"
  let ?k = "(asc ''movie'', 603::int, asc ''en'', 0::int)"
  let ?e1 = "Schedule (asc ''movie'') 603 (asc ''en'') None False 1000"
  let ?s1 = "backfill_run ?key 2000 init_backfill [?e1]"
  let ?s2 = "backfill_run ?key 2000 init_backfill [?e1, TaskEnds ?k]"
  note ev = schedule_backfill_def backfill_refused_def str_truthy_def lang_tag_def
    init_backfill_def backfill_ttl_s_def Let_def asc_def
  have s1: "?s1 = \<lparr>backfill_recent = [?k \<mapsto> 1000], backfill_inflight = [?k],
                      submitted = [(?k, 1000)]\<rparr>"
    by (simp add: ev)
  have s2: "?s2 = \<lparr>backfill_recent = [?k \<mapsto> 1000], backfill_inflight = [],
                      submitted = [(?k, 1000)]\<rparr>"
    by (simp add: ev)
  have kk: "?k = (asc ''movie'', 603, lang_tag (asc ''en'') None, if False then 1 else 0)"
    by (simp add: lang_tag_def)
  have p1: "\<forall>e \<in> set [?e1]. clock_positive e" by simp
  have p2: "\<forall>e \<in> set [?e1, TaskEnds ?k]. clock_positive e" by simp
  have p0: "\<forall>e \<in> set ([] :: backfill_event list). clock_positive e" by simp
  note T1 = C1_backfill_dedup [where now = 1300 and queue_limit = 2000, OF p1 refl kk refl]
  note T2 = C1_backfill_dedup [where now = 1700 and queue_limit = 2000, OF p2 refl kk refl]
  note T3 = C1_backfill_dedup [where now = 1700 and queue_limit = 2000, OF p1 refl kk refl]
  have kp: "(asc ''person'', 603::int, asc ''en'', 0::int)
      = (asc ''person'', 603, lang_tag (asc ''en'') None, if False then 1 else 0)"
    by (simp add: lang_tag_def)
  note T4 = C1_backfill_dedup [where now = 1000 and queue_limit = 2000 and tmdb_key = ?key,
      OF p0 refl kp refl]
  note c2 = conjunct2 [THEN conjunct1]
  note c3 = conjunct2 [THEN conjunct2, THEN conjunct1]
  have r1: "backfill_recent ?s1 ?k = Some 1000 \<and> 1300 - 1000 < backfill_ttl_s"
    unfolding s1 by (simp add: backfill_ttl_s_def)
  have A: "schedule_backfill ?key 2000 ?s1 (asc ''movie'') 603 (asc ''en'') None False 1300 = ?s1"
    using T1 [THEN conjunct1, THEN spec, THEN mp, OF r1] .
  have r2: "(\<exists>t0. backfill_recent ?s2 ?k = Some t0 \<and> \<not> 1700 - t0 < backfill_ttl_s)
      \<or> (backfill_recent ?s2 ?k = None \<and> \<not> backfill_refused ?key (asc ''movie'') 603)"
    unfolding s2 by (simp add: backfill_ttl_s_def)
  have q2: "int (length (backfill_inflight ?s2)) < 2000 \<and> ?k \<notin> set (backfill_inflight ?s2)"
    unfolding s2 by simp
  have "submitted (schedule_backfill ?key 2000 ?s2 (asc ''movie'') 603 (asc ''en'') None False 1700)
      = submitted ?s2 @ [(?k, 1700)]"
    using T2 [THEN c2, THEN mp, OF r2, THEN c2, THEN mp, OF q2] by (rule conjunct1)
  then have B: "submitted (schedule_backfill ?key 2000 ?s2 (asc ''movie'') 603 (asc ''en'') None False 1700)
      = [(?k, 1000), (?k, 1700)]"
    unfolding s2 by simp
  have r3: "(\<exists>t0. backfill_recent ?s1 ?k = Some t0 \<and> \<not> 1700 - t0 < backfill_ttl_s)
      \<or> (backfill_recent ?s1 ?k = None \<and> \<not> backfill_refused ?key (asc ''movie'') 603)"
    unfolding s1 by (simp add: backfill_ttl_s_def)
  have q3: "\<not> (int (length (backfill_inflight ?s1)) < 2000 \<and> ?k \<notin> set (backfill_inflight ?s1))"
    unfolding s1 by simp
  have "submitted (schedule_backfill ?key 2000 ?s1 (asc ''movie'') 603 (asc ''en'') None False 1700)
      = submitted ?s1"
    using T3 [THEN c2, THEN mp, OF r3, THEN conjunct2, THEN conjunct2, THEN mp, OF q3]
    by (rule conjunct1)
  then have C: "submitted (schedule_backfill ?key 2000 ?s1 (asc ''movie'') 603 (asc ''en'') None False 1700)
      = [(?k, 1000)]"
    unfolding s1 by simp
  have r4: "backfill_refused ?key (asc ''person'') 603"
    by (simp add: backfill_refused_def asc_def)
  have "schedule_backfill ?key 2000 (backfill_run ?key 2000 init_backfill [])
      (asc ''person'') 603 (asc ''en'') None False 1000 = backfill_run ?key 2000 init_backfill []"
    using T4 [THEN c3, THEN mp, OF r4] by (rule conjunct1)
  then have D: "schedule_backfill ?key 2000 init_backfill
     (asc ''person'') 603 (asc ''en'') None False 1000 = init_backfill"
    by simp
  show ?thesis by (intro conjI A B C D)
qed

end
